theory Spec2Isabelle
  imports Complex_Main "HOL-Library.Char_ord" "HOL-Library.List_Lexorder"
begin


section \<open>Data model of the annotation document\<close>

text \<open>
  The persisted document maps an image file name to a record with the image size, the
  number of detected objects, the objects and, after measurement, the pairs. Every
  object is a Python dict: the keys the code reads with \<^verbatim>\<open>obj.get\<close> or tests
  with \<^verbatim>\<open>in\<close> are optional fields here, the keys it reads with \<^verbatim>\<open>obj[...]\<close>
  are plain fields. A contour is a sequence of integer points (the JSON text
  \<^verbatim>\<open>[[x,y],...]\<close> after \<^verbatim>\<open>json.loads\<close>). Floating-point values are modelled
  by exact reals.
\<close>

type_synonym point = "int \<times> int"
type_synonym contour = "point list"

text \<open>
  The \<^verbatim>\<open>segmentation\<close> key as the masking step sees it: missing or falsy, a value that
  parses into an array of points, or a value on which \<^verbatim>\<open>json.loads\<close> /
  \<^verbatim>\<open>np.array(...).reshape(-1, 2)\<close> raises.
\<close>

datatype seg_field = SegAbsent | SegPoints contour | SegCorrupt

record obj =
  object_id :: "int option"
  cls :: string
  bbox :: "int \<times> int \<times> int \<times> int"
  segmentation :: seg_field
  eyes :: "contour list option"
  tmp_eye_L :: "point option"
  tmp_eye_R :: "point option"
  eyes_dist :: "real option"
  eye_L_center :: "point option"
  eye_R_center :: "point option"

record pair_rec =
  obj_1_id :: "int option"
  obj_2_id :: "int option"
  right_eye_dist :: real

record annotation =
  width :: nat
  height :: nat
  animals_found :: nat
  objects :: "obj list"
  pairs :: "pair_rec list option"

text \<open>The document: a dict in insertion order.\<close>

type_synonym document = "(string \<times> annotation) list"

section \<open>Measurement tool (measurement\_tool.py)\<close>

subsection \<open>Arithmetic of the Python runtime\<close>

text \<open>\<^verbatim>\<open>int(x)\<close> and \<^verbatim>\<open>astype(int)\<close>: truncation toward zero.\<close>

definition py_int :: "real \<Rightarrow> int" where
  "py_int x = (if 0 \<le> x then \<lfloor>x\<rfloor> else \<lceil>x\<rceil>)"

text \<open>\<^verbatim>\<open>round(x, 2)\<close>: nearest multiple of 0.01, a tie going to the even one.\<close>

definition py_round :: "real \<Rightarrow> int" where
  "py_round x =
     (let f = \<lfloor>x\<rfloor>; d = x - of_int f
      in if d < 1 / 2 then f else if 1 / 2 < d then f + 1
         else if even f then f else f + 1)"

definition round2 :: "real \<Rightarrow> real" where
  "round2 x = of_int (py_round (x * 100)) / 100"

definition calculate_euclidean_distance :: "point \<Rightarrow> point \<Rightarrow> real" where
  "calculate_euclidean_distance p1 p2 =
     sqrt (of_int ((fst p1 - fst p2)\<^sup>2 + (snd p1 - snd p2)\<^sup>2))"

subsection \<open>Contour moments\<close>

text \<open>
  \<^verbatim>\<open>cv2.moments\<close> belongs to OpenCV, not to this repository. For an array of N points
  it evaluates Green's formula over the closed polygon: with \<open>d\<^sub>i = x\<^sub>i\<^sub>-\<^sub>1 y\<^sub>i - x\<^sub>i y\<^sub>i\<^sub>-\<^sub>1\<close>
  (the point before the first being the last), \<open>a00 = \<Sum> d\<^sub>i\<close>,
  \<open>a10 = \<Sum> d\<^sub>i (x\<^sub>i\<^sub>-\<^sub>1 + x\<^sub>i)\<close>, \<open>a01 = \<Sum> d\<^sub>i (y\<^sub>i\<^sub>-\<^sub>1 + y\<^sub>i)\<close>; when \<open>a00\<close> is zero every
  moment is zero, otherwise \<open>m00 = |a00| / 2\<close> and \<open>m10\<close>, \<open>m01\<close> are \<open>a10 / 6\<close>,
  \<open>a01 / 6\<close> with the sign of \<open>a00\<close>. \<open>a00 / 2\<close> is the signed area of the polygon.
\<close>

fun green_sums :: "point \<Rightarrow> contour \<Rightarrow> int \<times> int \<times> int" where
  "green_sums prev [] = (0, 0, 0)"
| "green_sums prev (p # ps) =
     (let d = fst prev * snd p - fst p * snd prev;
          (a00, a10, a01) = green_sums p ps
      in (d + a00, d * (fst prev + fst p) + a10, d * (snd prev + snd p) + a01))"

definition contour_sums :: "contour \<Rightarrow> int \<times> int \<times> int" where
  "contour_sums pts = (if pts = [] then (0, 0, 0) else green_sums (last pts) pts)"

definition signed_area :: "contour \<Rightarrow> real" where
  "signed_area pts = of_int (fst (contour_sums pts)) / 2"

record moments_rec =
  m00 :: real
  m10 :: real
  m01 :: real

definition moments :: "contour \<Rightarrow> moments_rec" where
  "moments pts =
     (let (a00, a10, a01) = contour_sums pts
      in if a00 = 0 then \<lparr>m00 = 0, m10 = 0, m01 = 0\<rparr>
         else if 0 < a00
           then \<lparr>m00 = of_int a00 / 2, m10 = of_int a10 / 6, m01 = of_int a01 / 6\<rparr>
           else \<lparr>m00 = - of_int a00 / 2, m10 = - of_int a10 / 6, m01 = - of_int a01 / 6\<rparr>)"

subsection \<open>Centroid and landmarks\<close>

text \<open>\<^verbatim>\<open>np.mean(pts, axis=0)\<close>: the mean of the x and of the y coordinates.\<close>

definition mean_point :: "contour \<Rightarrow> real \<times> real" where
  "mean_point pts =
     (of_int (sum_list (map fst pts)) / of_nat (length pts),
      of_int (sum_list (map snd pts)) / of_nat (length pts))"

text \<open>
  \<^verbatim>\<open>_get_centroid\<close>. On an empty point array the moments are zero and the mean is
  not a number, so what comes back is no coordinate pair and the sort that follows in
  \<^verbatim>\<open>_preprocess_coordinates\<close> raises: that case is \<open>None\<close>.
\<close>

definition get_centroid :: "contour \<Rightarrow> point option" where
  "get_centroid pts =
     (if pts = [] then None
      else let m = moments pts
           in if m00 m \<noteq> 0
              then Some (py_int (m10 m / m00 m), py_int (m01 m / m00 m))
              else Some (py_int (fst (mean_point pts)), py_int (snd (mean_point pts))))"

text \<open>A list comprehension whose body may raise.\<close>

fun map_raise :: "('a \<Rightarrow> 'b option) \<Rightarrow> 'a list \<Rightarrow> 'b list option" where
  "map_raise f [] = Some []"
| "map_raise f (x # xs) =
     (case f x of None \<Rightarrow> None
      | Some y \<Rightarrow> (case map_raise f xs of None \<Rightarrow> None | Some ys \<Rightarrow> Some (y # ys)))"

definition get_eyes :: "obj \<Rightarrow> contour list" where
  "get_eyes ob = (case eyes ob of None \<Rightarrow> [] | Some es \<Rightarrow> es)"

text \<open>The body of the object loop of \<^verbatim>\<open>_preprocess_coordinates\<close>.\<close>

definition preprocess_obj :: "obj \<Rightarrow> obj option" where
  "preprocess_obj ob =
     (if length (get_eyes ob) = 2
      then (case map_raise get_centroid (get_eyes ob) of
              None \<Rightarrow> None
            | Some centroids \<Rightarrow>
                (case sort_key fst centroids of
                   l # r # _ \<Rightarrow> Some (ob\<lparr>tmp_eye_L := Some l, tmp_eye_R := Some r\<rparr>)
                 | _ \<Rightarrow> None))
      else Some ob)"

definition preprocess_record :: "annotation \<Rightarrow> annotation option" where
  "preprocess_record r =
     (case map_raise preprocess_obj (objects r) of
        None \<Rightarrow> None
      | Some os \<Rightarrow> Some (r\<lparr>objects := os\<rparr>))"

definition preprocess_coordinates :: "document \<Rightarrow> document option" where
  "preprocess_coordinates data =
     map_raise (\<lambda>(img_name, r).
        case preprocess_record r of None \<Rightarrow> None | Some r' \<Rightarrow> Some (img_name, r')) data"

subsection \<open>Metrics\<close>

text \<open>\<^verbatim>\<open>itertools.combinations(xs, 2)\<close>.\<close>

fun combinations2 :: "'a list \<Rightarrow> ('a \<times> 'a) list" where
  "combinations2 [] = []"
| "combinations2 (x # xs) = map (Pair x) xs @ combinations2 xs"

definition has_tmp :: "obj \<Rightarrow> bool" where
  "has_tmp ob = (tmp_eye_L ob \<noteq> None \<and> tmp_eye_R ob \<noteq> None)"

text \<open>Part A, the body of the loop over the objects.\<close>

definition metrics_obj :: "obj \<Rightarrow> obj" where
  "metrics_obj ob =
     (case (tmp_eye_L ob, tmp_eye_R ob) of
        (Some l, Some r) \<Rightarrow>
          ob\<lparr>eyes_dist := Some (round2 (calculate_euclidean_distance l r)),
             eye_L_center := Some l, eye_R_center := Some r\<rparr>
      | _ \<Rightarrow> ob)"

text \<open>Part B, the body of the loop over the combinations; a missing key raises.\<close>

definition make_pair :: "obj \<times> obj \<Rightarrow> pair_rec option" where
  "make_pair ab =
     (case (eye_R_center (fst ab), eye_R_center (snd ab)) of
        (Some ra, Some rb) \<Rightarrow>
          Some \<lparr>obj_1_id = object_id (fst ab), obj_2_id = object_id (snd ab),
                right_eye_dist = round2 (calculate_euclidean_distance ra rb)\<rparr>
      | _ \<Rightarrow> None)"

definition pop_tmp :: "obj \<Rightarrow> obj" where
  "pop_tmp ob = ob\<lparr>tmp_eye_L := None, tmp_eye_R := None\<rparr>"

definition metrics_record :: "annotation \<Rightarrow> annotation option" where
  "metrics_record r =
     (let objs = map metrics_obj (objects r);
          objs_with_eyes = filter has_tmp objs
      in case map_raise make_pair (combinations2 objs_with_eyes) of
           None \<Rightarrow> None
         | Some ps \<Rightarrow> Some (r\<lparr>objects := map pop_tmp objs, pairs := Some ps\<rparr>))"

text \<open>
  \<^verbatim>\<open>_calculate_all_metrics\<close>: the document and the number of pair records.
\<close>

fun calculate_all_metrics :: "document \<Rightarrow> (document \<times> nat) option" where
  "calculate_all_metrics [] = Some ([], 0)"
| "calculate_all_metrics ((img_name, r) # rest) =
     (case metrics_record r of
        None \<Rightarrow> None
      | Some r' \<Rightarrow>
          (case calculate_all_metrics rest of
             None \<Rightarrow> None
           | Some (rest', n) \<Rightarrow>
               Some ((img_name, r') # rest', (case pairs r' of None \<Rightarrow> 0 | Some ps \<Rightarrow> length ps) + n)))"

text \<open>
  The core of \<^verbatim>\<open>run\<close>: both passes over the loaded document; the result is what
  \<^verbatim>\<open>save_final_json\<close> writes. An exception in a pass ends the run before anything
  is saved (\<open>None\<close>).
\<close>

definition run_measurement :: "document \<Rightarrow> document option" where
  "run_measurement raw_data =
     (case preprocess_coordinates raw_data of
        None \<Rightarrow> None
      | Some data \<Rightarrow>
          (case calculate_all_metrics data of
             None \<Rightarrow> None
           | Some (processed_data, pair_count) \<Rightarrow> Some processed_data))"

subsection \<open>Documents the measurement tool is given\<close>

text \<open>
  The temporary keys never reach a saved document (the tool pops them before saving, and
  no other stage writes them), and every stored eye contour has at least one point (the
  refinement stage keeps contours with more than three points only).
\<close>

definition loaded_obj :: "obj \<Rightarrow> bool" where
  "loaded_obj ob =
     (tmp_eye_L ob = None \<and> tmp_eye_R ob = None \<and> list_all (\<lambda>c. c \<noteq> []) (get_eyes ob))"

definition loaded_document :: "document \<Rightarrow> bool" where
  "loaded_document data = list_all (\<lambda>(img_name, r). list_all loaded_obj (objects r)) data"

section \<open>Verifier (verify\_results.py)\<close>

text \<open>
  A row of the ground-truth table as \<^verbatim>\<open>csv.DictReader\<close> yields it; the
  \<^verbatim>\<open>Expected_Dist\<close> column holds a number. The two lookup tables are the ones
  \<^verbatim>\<open>_load_system_json\<close> fills: keyed by image name and identifier, and by image name
  and the sorted pair of identifiers. Identifiers are strings, compared as Python compares
  strings.
\<close>

record gt_row =
  Image_Name :: string
  Type :: string
  Obj_ID_1 :: string
  Obj_ID_2 :: string
  Expected_Dist :: real

record sys_maps =
  sys_individual_map :: "string \<times> string \<Rightarrow> real option"
  sys_pair_map :: "string \<times> string \<times> string \<Rightarrow> real option"

text \<open>\<^verbatim>\<open>tuple(sorted([id1, id2]))\<close>.\<close>

definition sorted_ids :: "string \<Rightarrow> string \<Rightarrow> string \<times> string" where
  "sorted_ids id1 id2 = (if id2 < id1 then (id2, id1) else (id1, id2))"

definition lookup_actual :: "sys_maps \<Rightarrow> gt_row \<Rightarrow> real option" where
  "lookup_actual sys row =
     (if Type row = ''Individual''
        then sys_individual_map sys (Image_Name row, Obj_ID_1 row)
      else if Type row = ''Pair''
        then sys_pair_map sys (Image_Name row, sorted_ids (Obj_ID_1 row) (Obj_ID_2 row))
      else None)"

record counters =
  total_error :: real
  match_count :: nat
  miss_count :: nat

text \<open>The body of the comparison loop.\<close>

definition compare_row :: "sys_maps \<Rightarrow> counters \<Rightarrow> gt_row \<Rightarrow> counters" where
  "compare_row sys c row =
     (let expect = Expected_Dist row
      in case lookup_actual sys row of
           None \<Rightarrow> c\<lparr>miss_count := miss_count c + 1\<rparr>
         | Some actual \<Rightarrow>
             if actual = 0 \<and> expect \<noteq> 0 then c\<lparr>miss_count := miss_count c + 1\<rparr>
             else c\<lparr>total_error := total_error c + \<bar>actual - expect\<bar>,
                    match_count := match_count c + 1\<rparr>)"

fun compare_rows :: "sys_maps \<Rightarrow> counters \<Rightarrow> gt_row list \<Rightarrow> counters" where
  "compare_rows sys c [] = c"
| "compare_rows sys c (row # rows) = compare_rows sys (compare_row sys c row) rows"

text \<open>
  What the statistics block prints: the three figures, or the warning that nothing could
  be compared.
\<close>

datatype report = Report nat nat real | NoValidData

text \<open>\<^verbatim>\<open>TestVerifier.run\<close>: no report at all for an empty table.\<close>

definition verifier_run :: "sys_maps \<Rightarrow> gt_row list \<Rightarrow> report option" where
  "verifier_run sys gt_rows =
     (if gt_rows = [] then None
      else let c = compare_rows sys \<lparr>total_error = 0, match_count = 0, miss_count = 0\<rparr> gt_rows
           in if 0 < match_count c
              then Some (Report (match_count c) (miss_count c)
                           (total_error c / of_nat (match_count c)))
              else Some NoValidData)"

section \<open>Refinement stage (eyes\_extractor.py)\<close>

subsection \<open>Images and the mutual-exclusion mask\<close>

text \<open>An image is its rows of BGR pixels.\<close>

type_synonym color = "nat \<times> nat \<times> nat"
type_synonym image = "color list list"

text \<open>
  \<^verbatim>\<open>cv2.fillPoly\<close> belongs to OpenCV: which pixels \<open>(x, y)\<close> it paints for a polygon
  is the parameter \<open>covers\<close>.
\<close>

type_synonym raster = "contour \<Rightarrow> int \<Rightarrow> int \<Rightarrow> bool"

definition fillPoly :: "raster \<Rightarrow> image \<Rightarrow> contour \<Rightarrow> color \<Rightarrow> image" where
  "fillPoly covers img pts c =
     map (\<lambda>(y, row). map (\<lambda>(x, px). if covers pts (int x) (int y) then c else px)
                          (enumerate 0 row))
         (enumerate 0 img)"

text \<open>Step 1 of \<^verbatim>\<open>_process_sam_eyes\<close>: the loop over \<^verbatim>\<open>enumerate(all_objects)\<close>.\<close>

fun mask_others :: "raster \<Rightarrow> nat \<Rightarrow> nat \<Rightarrow> obj list \<Rightarrow> image \<Rightarrow> image" where
  "mask_others covers obj_index other_idx [] clean_img = clean_img"
| "mask_others covers obj_index other_idx (other_obj # others) clean_img =
     mask_others covers obj_index (Suc other_idx) others
       (if other_idx = obj_index then clean_img
        else case segmentation other_obj of
               SegPoints pts \<Rightarrow> fillPoly covers clean_img pts (0, 0, 0)
             | SegAbsent \<Rightarrow> clean_img
             | SegCorrupt \<Rightarrow> clean_img)"

text \<open>A bound of a Python slice over a dimension of \<open>n\<close>.\<close>

definition slice_bound :: "nat \<Rightarrow> int \<Rightarrow> nat" where
  "slice_bound n i = (if i < 0 then nat (max 0 (int n + i)) else min n (nat i))"

definition in_slice :: "nat \<Rightarrow> int \<Rightarrow> int \<Rightarrow> nat \<Rightarrow> bool" where
  "in_slice n a b k = (slice_bound n a \<le> k \<and> k < slice_bound n b)"

text \<open>
  Step 2: \<^verbatim>\<open>masked_input = np.zeros_like(clean_img)\<close>, then the copy of the slice
  \<^verbatim>\<open>[y1:y2, x1:x2]\<close>.
\<close>

definition copy_bbox :: "image \<Rightarrow> int \<times> int \<times> int \<times> int \<Rightarrow> image" where
  "copy_bbox clean_img box =
     (case box of (x1, y1, x2, y2) \<Rightarrow>
        map (\<lambda>(y, row).
               map (\<lambda>(x, px).
                      if in_slice (length clean_img) y1 y2 y \<and> in_slice (length row) x1 x2 x
                      then px else (0, 0, 0))
                   (enumerate 0 row))
            (enumerate 0 clean_img))"

definition masked_input :: "raster \<Rightarrow> image \<Rightarrow> obj \<Rightarrow> nat \<Rightarrow> obj list \<Rightarrow> image" where
  "masked_input covers img_bgr ob obj_index all_objects =
     copy_bbox (mask_others covers obj_index 0 all_objects img_bgr) (bbox ob)"

subsection \<open>The detector call\<close>

text \<open>
  A mask of the detector is taken as the external contours \<^verbatim>\<open>cv2.findContours\<close>
  traces on it. A detector call returns its masks (or \<^verbatim>\<open>None\<close>) or is ended by an
  exception: the operator's interrupt or any other error. Its answer may depend on how
  many calls the run has made before and on the image it is given.
\<close>

type_synonym mask = "contour list"

datatype exc = KeyboardInterrupt | OtherError

record env =
  imread :: "string \<Rightarrow> image option"
  covers :: raster
  detector :: "nat \<Rightarrow> image \<Rightarrow> exc + mask list option"
  show_windows :: bool
  esc_pressed :: "string \<Rightarrow> bool"

definition collect_contours :: "mask list \<Rightarrow> contour list" where
  "collect_contours masks = concat (map (filter (\<lambda>contour_points. 3 < length contour_points)) masks)"

definition process_sam_eyes ::
  "env \<Rightarrow> nat \<Rightarrow> image \<Rightarrow> obj \<Rightarrow> nat \<Rightarrow> obj list \<Rightarrow> exc + contour list" where
  "process_sam_eyes e k img_bgr ob obj_index all_objects =
     (case detector e k (masked_input (covers e) img_bgr ob obj_index all_objects) of
        Inl x \<Rightarrow> Inl x
      | Inr None \<Rightarrow> Inr []
      | Inr (Some masks) \<Rightarrow> if masks = [] then Inr [] else Inr (collect_contours masks))"

subsection \<open>The run loop\<close>

text \<open>\<^verbatim>\<open>"eyes" in obj and obj["eyes"]\<close>.\<close>

definition has_eyes :: "obj \<Rightarrow> bool" where
  "has_eyes ob = (case eyes ob of None \<Rightarrow> False | Some es \<Rightarrow> es \<noteq> [])"

text \<open>
  The detector calls of a run, in order: image name, object index and how the call
  ended.
\<close>

type_synonym call_log = "(string \<times> nat \<times> (exc + contour list)) list"

text \<open>
  The loop over \<^verbatim>\<open>enumerate(all_objects)\<close>; the list is mutated in place, so the
  objects before the current one are carried along as they are now. The result is the
  list, the log, \<^verbatim>\<open>is_modified\<close> and the exception that ended the loop, if any.
\<close>

fun run_objects ::
  "env \<Rightarrow> string \<Rightarrow> image \<Rightarrow> obj list \<Rightarrow> obj list \<Rightarrow> call_log \<Rightarrow> bool
     \<Rightarrow> obj list \<times> call_log \<times> bool \<times> exc option" where
  "run_objects e img_name img_bgr before [] trace is_modified =
     (before, trace, is_modified, None)"
| "run_objects e img_name img_bgr before (ob # rest) trace is_modified =
     (if has_eyes ob then run_objects e img_name img_bgr (before @ [ob]) rest trace is_modified
      else case process_sam_eyes e (length trace) img_bgr ob (length before) (before @ ob # rest) of
             Inl x \<Rightarrow>
               (before @ ob # rest, trace @ [(img_name, length before, Inl x)], is_modified, Some x)
           | Inr eyes_data \<Rightarrow>
               run_objects e img_name img_bgr (before @ [ob\<lparr>eyes := Some eyes_data\<rparr>]) rest
                 (trace @ [(img_name, length before, Inr eyes_data)]) True)"

datatype status = Completed | Escaped | Interrupted | Failed

text \<open>
  The loop over \<^verbatim>\<open>self.data.items()\<close>: an image that cannot be read is skipped; after
  an image with changes, in show mode, the ESC key breaks the loop; the operator's
  interrupt is caught, another exception goes on to the caller.
\<close>

fun run_images ::
  "env \<Rightarrow> document \<Rightarrow> document \<Rightarrow> call_log \<Rightarrow> document \<times> call_log \<times> status" where
  "run_images e before [] trace = (before, trace, Completed)"
| "run_images e before ((img_name, rcd) # rest) trace =
     (case imread e img_name of
        None \<Rightarrow> run_images e (before @ [(img_name, rcd)]) rest trace
      | Some img_bgr \<Rightarrow>
          (case run_objects e img_name img_bgr [] (objects rcd) trace False of
             (objs, trace', is_modified, Some KeyboardInterrupt) \<Rightarrow>
               (before @ (img_name, rcd\<lparr>objects := objs\<rparr>) # rest, trace', Interrupted)
           | (objs, trace', is_modified, Some OtherError) \<Rightarrow>
               (before @ (img_name, rcd\<lparr>objects := objs\<rparr>) # rest, trace', Failed)
           | (objs, trace', is_modified, None) \<Rightarrow>
               if is_modified \<and> show_windows e \<and> esc_pressed e img_name
               then (before @ (img_name, rcd\<lparr>objects := objs\<rparr>) # rest, trace', Escaped)
               else run_images e (before @ [(img_name, rcd\<lparr>objects := objs\<rparr>)]) rest trace'))"

text \<open>
  \<^verbatim>\<open>AnimalEyePipeline.run\<close>: the \<^verbatim>\<open>finally\<close> block calls \<^verbatim>\<open>save_results\<close>
  however the loop ended; \<open>saved\<close> is the document it writes.
\<close>

record run_result =
  saved :: document
  calls :: call_log
  ended :: status

definition run :: "env \<Rightarrow> document \<Rightarrow> run_result" where
  "run e data =
     (case run_images e [] data [] of
        (d, trace, st) \<Rightarrow> \<lparr>saved = d, calls = trace, ended = st\<rparr>)"

section \<open>Detection stage (animal\_extractor.py)\<close>

text \<open>
  The object record \<^verbatim>\<open>AnimalDetector.run\<close> appends for the \<open>i\<close>-th detection: the
  \<^verbatim>\<open>eyes\<close> key is there from the start, empty, reserved for the refinement stage.
\<close>

definition detected_obj :: "int \<Rightarrow> string \<Rightarrow> int \<times> int \<times> int \<times> int \<Rightarrow> seg_field \<Rightarrow> obj" where
  "detected_obj i class_name box seg =
     \<lparr>object_id = Some i, cls = class_name, bbox = box, segmentation = seg, eyes = Some [],
      tmp_eye_L = None, tmp_eye_R = None, eyes_dist = None,
      eye_L_center = None, eye_R_center = None\<rparr>"

section \<open>Reference descriptions used in the statements\<close>

subsection \<open>Geometry\<close>

text \<open>
  The centroid of a polygon of signed area \<open>A\<close>: \<open>(\<Sum> d\<^sub>i (x\<^sub>i\<^sub>-\<^sub>1 + x\<^sub>i) / 6A, \<Sum> d\<^sub>i (y\<^sub>i\<^sub>-\<^sub>1 + y\<^sub>i) / 6A)\<close>.
\<close>

definition polygon_centroid :: "contour \<Rightarrow> real \<times> real" where
  "polygon_centroid pts =
     (case contour_sums pts of (a00, a10, a01) \<Rightarrow>
        (of_int a10 / (6 * signed_area pts), of_int a01 / (6 * signed_area pts)))"

text \<open>The centroid before truncation: of the polygon, or the mean of the points.\<close>

definition exact_centroid :: "contour \<Rightarrow> real \<times> real" where
  "exact_centroid pts = (if signed_area pts \<noteq> 0 then polygon_centroid pts else mean_point pts)"

text \<open>The value \<^verbatim>\<open>_get_centroid\<close> computes on a contour that has points.\<close>

definition centroid_val :: "contour \<Rightarrow> point" where
  "centroid_val pts =
     (let m = moments pts
      in if m00 m \<noteq> 0
         then (py_int (m10 m / m00 m), py_int (m01 m / m00 m))
         else (py_int (fst (mean_point pts)), py_int (snd (mean_point pts))))"

text \<open>
  The landmarks of an eye sequence: for exactly two contours, their centroids with the
  smaller horizontal coordinate first, the first contour's first when they are equal.
\<close>

fun landmark_pair :: "contour list \<Rightarrow> (point \<times> point) option" where
  "landmark_pair [c1, c2] =
     (let p1 = centroid_val c1; p2 = centroid_val c2
      in Some (if fst p1 \<le> fst p2 then (p1, p2) else (p2, p1)))"
| "landmark_pair cs = None"

definition qualifying :: "obj \<Rightarrow> bool" where
  "qualifying ob = (length (get_eyes ob) = 2)"

definition right_landmark :: "obj \<Rightarrow> point" where
  "right_landmark ob = (case landmark_pair (get_eyes ob) of None \<Rightarrow> (0, 0) | Some (l, r) \<Rightarrow> r)"

text \<open>An object after the first pass, and after both passes.\<close>

definition tagged_obj :: "obj \<Rightarrow> obj" where
  "tagged_obj ob =
     (case landmark_pair (get_eyes ob) of
        None \<Rightarrow> ob
      | Some (l, r) \<Rightarrow> ob\<lparr>tmp_eye_L := Some l, tmp_eye_R := Some r\<rparr>)"

definition measured_obj :: "obj \<Rightarrow> obj" where
  "measured_obj ob =
     (case landmark_pair (get_eyes ob) of
        None \<Rightarrow> ob
      | Some (l, r) \<Rightarrow>
          ob\<lparr>eyes_dist := Some (round2 (calculate_euclidean_distance l r)),
             eye_L_center := Some l, eye_R_center := Some r\<rparr>)"

text \<open>The pair record of two qualifying objects, in the order given.\<close>

definition pair_of :: "obj \<times> obj \<Rightarrow> pair_rec" where
  "pair_of ab =
     \<lparr>obj_1_id = object_id (fst ab), obj_2_id = object_id (snd ab),
      right_eye_dist =
        round2 (calculate_euclidean_distance (right_landmark (fst ab)) (right_landmark (snd ab)))\<rparr>"

definition measured_record :: "annotation \<Rightarrow> annotation" where
  "measured_record r =
     r\<lparr>objects := map measured_obj (objects r),
       pairs := Some (map pair_of (combinations2 (filter qualifying (objects r))))\<rparr>"

subsection \<open>Polygon area and centroid, from the edges\<close>

text \<open>
  The textbook formulas, written on the edges of the closed polygon (every vertex with
  its successor, the last with the first): twice the signed area is the sum of
  \<open>x\<^sub>i y\<^sub>i\<^sub>+\<^sub>1 - x\<^sub>i\<^sub>+\<^sub>1 y\<^sub>i\<close>, and the centroid is the sum of
  \<open>(x\<^sub>i + x\<^sub>i\<^sub>+\<^sub>1) (x\<^sub>i y\<^sub>i\<^sub>+\<^sub>1 - x\<^sub>i\<^sub>+\<^sub>1 y\<^sub>i)\<close>, and the same with \<open>y\<close>, over six times the area.
\<close>

definition cross :: "point \<Rightarrow> point \<Rightarrow> int" where
  "cross p q = fst p * snd q - fst q * snd p"

definition edges :: "contour \<Rightarrow> (point \<times> point) list" where
  "edges pts = zip pts (rotate1 pts)"

definition shoelace_area :: "contour \<Rightarrow> real" where
  "shoelace_area pts = of_int (sum_list (map (\<lambda>(p, q). cross p q) (edges pts))) / 2"

definition area_centroid :: "contour \<Rightarrow> real \<times> real" where
  "area_centroid pts =
     (of_int (sum_list (map (\<lambda>(p, q). (fst p + fst q) * cross p q) (edges pts)))
        / (6 * shoelace_area pts),
      of_int (sum_list (map (\<lambda>(p, q). (snd p + snd q) * cross p q) (edges pts)))
        / (6 * shoelace_area pts))"

subsection \<open>Rounding to two decimals\<close>

text \<open>\<open>r\<close> is a multiple of 0.01 and no multiple of 0.01 is nearer to \<open>x\<close>.\<close>

definition nearest_hundredth :: "real \<Rightarrow> real \<Rightarrow> bool" where
  "nearest_hundredth x r = ((\<exists>n :: int. r = of_int n / 100) \<and> \<bar>r - x\<bar> \<le> 1 / 200)"

subsection \<open>Concrete inputs\<close>

text \<open>An L-shaped contour: its centroid is not the mean of its points.\<close>

definition l_shape :: contour where
  "l_shape = [(0, 0), (10, 0), (10, 1), (1, 1), (1, 10), (0, 10)]"

text \<open>Three points on a line.\<close>

definition collinear :: contour where
  "collinear = [(0, 0), (1, 1), (2, 2)]"


text \<open>A square contour of half side \<open>h\<close> around \<open>(cx, cy)\<close>.\<close>

definition square :: "int \<Rightarrow> int \<Rightarrow> int \<Rightarrow> contour" where
  "square cx cy h = [(cx - h, cy - h), (cx + h, cy - h), (cx + h, cy + h), (cx - h, cy + h)]"

text \<open>
  The synthetic 200 x 200 image of the end-to-end test: object 0 with eyes around
  (50,50) and (70,50), object 1 with eyes around (150,50) and (170,50).
\<close>

definition synthetic_objects :: "int \<Rightarrow> int \<Rightarrow> int \<Rightarrow> int \<Rightarrow> obj list" where
  "synthetic_objects h1 h2 h3 h4 =
     [(detected_obj 0 ''cat'' (20, 20, 100, 100) SegAbsent)
        \<lparr>eyes := Some [square 50 50 h1, square 70 50 h2]\<rparr>,
      (detected_obj 1 ''dog'' (120, 20, 200, 100) SegAbsent)
        \<lparr>eyes := Some [square 150 50 h3, square 170 50 h4]\<rparr>]"

definition synthetic_document :: "int \<Rightarrow> int \<Rightarrow> int \<Rightarrow> int \<Rightarrow> document" where
  "synthetic_document h1 h2 h3 h4 =
     [(''synthetic.png'',
       \<lparr>width = 200, height = 200, animals_found = 2,
        objects = synthetic_objects h1 h2 h3 h4, pairs = None\<rparr>)]"

text \<open>The same two objects followed by one with a single eye contour.\<close>

definition one_eyed :: obj where
  "one_eyed = (detected_obj 2 ''bird'' (0, 120, 50, 170) SegAbsent)\<lparr>eyes := Some [square 20 140 5]\<rparr>"

definition mixed_document :: document where
  "mixed_document =
     [(''mixed.png'',
       \<lparr>width = 200, height = 200, animals_found = 3,
        objects = synthetic_objects 5 5 5 5 @ [one_eyed], pairs = None\<rparr>)]"

text \<open>
  Two qualifying objects whose identifiers are not in ascending order and whose right
  landmarks, (70,50) and (71,51), are the square root of 2 apart, in a record that
  already holds a pair from an earlier pass.
\<close>

definition reordered_objects :: "obj list" where
  "reordered_objects =
     [(detected_obj 5 ''cat'' (20, 20, 100, 100) SegAbsent)
        \<lparr>eyes := Some [square 50 50 5, square 70 50 5]\<rparr>,
      (detected_obj 2 ''dog'' (50, 20, 90, 100) SegAbsent)
        \<lparr>eyes := Some [square 71 51 5, square 60 51 5]\<rparr>]"

definition reordered_document :: document where
  "reordered_document =
     [(''reordered.png'',
       \<lparr>width = 200, height = 200, animals_found = 2, objects = reordered_objects,
        pairs = Some [\<lparr>obj_1_id = Some 9, obj_2_id = Some 8, right_eye_dist = 1\<rparr>]\<rparr>)]"

subsection \<open>Verifier\<close>

text \<open>
  The three classes of a ground-truth row: no computed value; a computed value of exactly
  zero against an expected value that is not zero; otherwise a match, with its absolute
  error.
\<close>

datatype row_class = Miss | DetectionFailure | Match real

definition classify :: "sys_maps \<Rightarrow> gt_row \<Rightarrow> row_class" where
  "classify sys row =
     (case lookup_actual sys row of
        None \<Rightarrow> Miss
      | Some actual \<Rightarrow>
          if actual = 0 \<and> Expected_Dist row \<noteq> 0 then DetectionFailure
          else Match \<bar>actual - Expected_Dist row\<bar>)"

fun is_match :: "row_class \<Rightarrow> bool" where
  "is_match (Match err) = True"
| "is_match Miss = False"
| "is_match DetectionFailure = False"

fun match_error :: "row_class \<Rightarrow> real" where
  "match_error (Match err) = err"
| "match_error Miss = 0"
| "match_error DetectionFailure = 0"

text \<open>One individual row expecting 20.00, for which the system computed 22.50.\<close>

definition example_row :: gt_row where
  "example_row =
     \<lparr>Image_Name = ''a.jpg'', Type = ''Individual'', Obj_ID_1 = ''0'', Obj_ID_2 = '''',
      Expected_Dist = 20\<rparr>"

definition example_sys :: sys_maps where
  "example_sys =
     \<lparr>sys_individual_map = (\<lambda>key. if key = (''a.jpg'', ''0'') then Some (45 / 2) else None),
      sys_pair_map = (\<lambda>key. None)\<rparr>"

subsection \<open>Masking\<close>

text \<open>A raster for the examples: the pixels of the bounding rectangle of the points.\<close>

definition bounding_raster :: raster where
  "bounding_raster pts x y =
     (list_ex (\<lambda>p. fst p \<le> x) pts \<and> list_ex (\<lambda>p. x \<le> fst p) pts \<and>
      list_ex (\<lambda>p. snd p \<le> y) pts \<and> list_ex (\<lambda>p. y \<le> snd p) pts)"

text \<open>A 4 x 2 image of grey pixels with object A on its left half and B on its right.\<close>

definition grey_image :: image where
  "grey_image = replicate 2 (replicate 4 (9, 9, 9))"

definition object_A :: obj where
  "object_A = detected_obj 0 ''cat'' (0, 0, 2, 2) (SegPoints [(0, 0), (1, 0), (1, 1), (0, 1)])"

definition object_B :: obj where
  "object_B = detected_obj 1 ''dog'' (2, 0, 4, 2) (SegPoints [(2, 0), (3, 0), (3, 1), (2, 1)])"

subsection \<open>Run loop\<close>

text \<open>A log entry of a call that returned.\<close>

definition returned :: "string \<times> nat \<times> (exc + contour list) \<Rightarrow> bool" where
  "returned ent = (\<exists>es. snd (snd ent) = Inr es)"

text \<open>
  How a stretch of the log ends: with no exception every call returned; with an exception
  the last call raised it and every call before returned.
\<close>

definition log_ends :: "exc option \<Rightarrow> call_log \<Rightarrow> bool" where
  "log_ends x new =
     (case x of
        None \<Rightarrow> list_all returned new
      | Some ex \<Rightarrow> new \<noteq> [] \<and> snd (snd (last new)) = Inl ex \<and> list_all returned (butlast new))"

text \<open>
  A log entry of image \<open>nm\<close> belongs to one of the objects \<open>rest\<close> (the first of which has
  index \<open>off\<close>) that had no eyes, and the result of a call that returned is in that object
  afterwards.
\<close>

definition entry_ok ::
  "string \<Rightarrow> nat \<Rightarrow> obj list \<Rightarrow> obj list \<Rightarrow> string \<times> nat \<times> (exc + contour list) \<Rightarrow> bool" where
  "entry_ok nm off rest rest' ent =
     (\<exists>j < length rest. fst ent = nm \<and> fst (snd ent) = off + j \<and> \<not> has_eyes (rest ! j) \<and>
        (\<forall>es. snd (snd ent) = Inr es \<longrightarrow> eyes (rest' ! j) = Some es))"

text \<open>
  An object after the loop: as before, or, having had no eyes, with the result of a logged
  call as its eyes.
\<close>

definition obj_step :: "string \<Rightarrow> nat \<Rightarrow> call_log \<Rightarrow> obj \<Rightarrow> obj \<Rightarrow> bool" where
  "obj_step nm idx new ob ob' =
     (ob' = ob \<or>
      (\<not> has_eyes ob \<and> (\<exists>es. (nm, idx, Inr es) \<in> set new \<and> ob' = ob\<lparr>eyes := Some es\<rparr>)))"

definition objects_inv ::
  "string \<Rightarrow> nat \<Rightarrow> obj list \<Rightarrow> obj list \<Rightarrow> call_log \<Rightarrow> bool" where
  "objects_inv nm off rest rest' new =
     (length rest' = length rest \<and>
      (\<forall>j < length rest. obj_step nm (off + j) new (rest ! j) (rest' ! j)) \<and>
      (\<forall>ent \<in> set new. entry_ok nm off rest rest' ent))"

text \<open>The same for the records of a document.\<close>

definition record_step :: "call_log \<Rightarrow> string \<times> annotation \<Rightarrow> string \<times> annotation \<Rightarrow> bool" where
  "record_step new nr nr' =
     (fst nr' = fst nr \<and>
      (\<exists>objs. snd nr' = (snd nr)\<lparr>objects := objs\<rparr> \<and>
         length objs = length (objects (snd nr)) \<and>
         (\<forall>j < length objs. obj_step (fst nr) j new (objects (snd nr) ! j) (objs ! j))))"

definition doc_entry_ok ::
  "document \<Rightarrow> document \<Rightarrow> string \<times> nat \<times> (exc + contour list) \<Rightarrow> bool" where
  "doc_entry_ok rest rest' ent =
     (\<exists>k < length rest. fst (rest ! k) = fst ent \<and>
        entry_ok (fst ent) 0 (objects (snd (rest ! k))) (objects (snd (rest' ! k))) ent)"

definition document_inv :: "document \<Rightarrow> document \<Rightarrow> call_log \<Rightarrow> bool" where
  "document_inv rest rest' new =
     (length rest' = length rest \<and>
      (\<forall>k < length rest. record_step new (rest ! k) (rest' ! k)) \<and>
      (\<forall>ent \<in> set new. doc_entry_ok rest rest' ent))"

definition doc_ends :: "status \<Rightarrow> call_log \<Rightarrow> bool" where
  "doc_ends st new =
     (case st of
        Completed \<Rightarrow> list_all returned new
      | Escaped \<Rightarrow> list_all returned new \<and> new \<noteq> []
      | Interrupted \<Rightarrow> log_ends (Some KeyboardInterrupt) new
      | Failed \<Rightarrow> log_ends (Some OtherError) new)"

text \<open>
  A document with one image whose single object is as the detection stage left it, one
  with two such objects, and three environments: a detector that finds nothing, one that
  finds an eye, and one whose first call finds an eye and whose second call is ended by
  the operator's interrupt.
\<close>

definition pending_document :: document where
  "pending_document =
     [(''a.jpg'', \<lparr>width = 4, height = 2, animals_found = 1, objects = [object_A],
                  pairs = None\<rparr>)]"

definition two_pending :: document where
  "two_pending =
     [(''a.jpg'', \<lparr>width = 4, height = 2, animals_found = 2, objects = [object_A, object_B],
                  pairs = None\<rparr>)]"

definition blind_env :: env where
  "blind_env =
     \<lparr>imread = (\<lambda>img_name. Some grey_image), covers = bounding_raster,
      detector = (\<lambda>k img. Inr (Some [])), show_windows = False,
      esc_pressed = (\<lambda>img_name. False)\<rparr>"

definition sighted_env :: env where
  "sighted_env = blind_env\<lparr>detector := (\<lambda>k img. Inr (Some [[square 1 1 1]]))\<rparr>"

definition interrupt_env :: env where
  "interrupt_env =
     blind_env\<lparr>detector :=
       (\<lambda>k img. if k = 0 then Inr (Some [[square 1 1 1]]) else Inl KeyboardInterrupt)\<rparr>"

section \<open>Properties of the measurement tool\<close>

subsection \<open>Truncation and rounding\<close>

lemma py_int_of_int: "py_int (of_int n) = n"
  by (simp add: py_int_def)

lemma py_int_close: "\<bar>of_int (py_int x) - x\<bar> < 1"
  unfolding py_int_def by (auto; linarith)

lemma py_int_toward_zero: "\<bar>of_int (py_int x) :: real\<bar> \<le> \<bar>x\<bar>"
  unfolding py_int_def by (auto; linarith)

lemma round2_of_int: "round2 (of_int n) = of_int n"
  by (simp add: round2_def py_round_def Let_def)

subsection \<open>Centroids\<close>

lemma get_centroid_val: "pts \<noteq> [] \<Longrightarrow> get_centroid pts = Some (centroid_val pts)"
  by (simp add: get_centroid_def centroid_val_def Let_def)

lemma m00_area: "m00 (moments pts) = \<bar>signed_area pts\<bar>"
  by (cases "contour_sums pts") (simp add: moments_def signed_area_def)

lemma moment_ratio:
  assumes "signed_area pts \<noteq> 0"
  shows "(m10 (moments pts) / m00 (moments pts), m01 (moments pts) / m00 (moments pts))
       = polygon_centroid pts"
  using assms
  by (cases "contour_sums pts") (auto simp add: moments_def signed_area_def polygon_centroid_def)

lemma centroid_val_exact:
  "centroid_val pts = (py_int (fst (exact_centroid pts)), py_int (snd (exact_centroid pts)))"
proof (cases "signed_area pts = 0")
  case True
  then show ?thesis by (simp add: centroid_val_def exact_centroid_def Let_def m00_area)
next
  case False
  from moment_ratio [OF False] have
    "m10 (moments pts) / m00 (moments pts) = fst (polygon_centroid pts)"
    "m01 (moments pts) / m00 (moments pts) = snd (polygon_centroid pts)"
    by (metis fst_conv, metis snd_conv)
  with False show ?thesis by (simp add: centroid_val_def exact_centroid_def Let_def m00_area)
qed

lemma sums_square:
  "contour_sums (square cx cy h) = (8 * h\<^sup>2, 24 * h\<^sup>2 * cx, 24 * h\<^sup>2 * cy)"
  by (simp add: contour_sums_def square_def Let_def algebra_simps power2_eq_square)

lemma centroid_val_square:
  assumes "0 < h"
  shows "centroid_val (square cx cy h) = (cx, cy)"
proof -
  have m: "moments (square cx cy h)
         = \<lparr>m00 = 4 * of_int (h\<^sup>2), m10 = 4 * of_int (h\<^sup>2) * of_int cx,
            m01 = 4 * of_int (h\<^sup>2) * of_int cy\<rparr>"
    using assms by (simp add: moments_def sums_square)
  have "(of_int (h\<^sup>2) :: real) \<noteq> 0" using assms by simp
  then show ?thesis
    by (simp add: centroid_val_def m Let_def py_int_of_int)
qed

subsection \<open>The two passes on a loaded document\<close>

lemma map_raise_Some:
  "(\<And>x. x \<in> set xs \<Longrightarrow> f x = Some (g x)) \<Longrightarrow> map_raise f xs = Some (map g xs)"
  by (induction xs) simp_all

lemma map_raise_map: "map_raise f (map g xs) = map_raise (f \<circ> g) xs"
  by (induction xs) (simp_all split: option.split)

lemma landmark_pair_None: "length cs \<noteq> 2 \<Longrightarrow> landmark_pair cs = None"
  by (cases cs rule: landmark_pair.cases) simp_all

lemma preprocess_obj_tagged:
  assumes "loaded_obj ob"
  shows "preprocess_obj ob = Some (tagged_obj ob)"
proof (cases "length (get_eyes ob) = 2")
  case False
  then show ?thesis
    by (simp add: preprocess_obj_def tagged_obj_def landmark_pair_None)
next
  case True
  then obtain c1 c2 where cs: "get_eyes ob = [c1, c2]"
    by (cases "get_eyes ob" rule: landmark_pair.cases) simp_all
  from assms cs have ne: "c1 \<noteq> []" "c2 \<noteq> []"
    by (simp_all add: loaded_obj_def)
  show ?thesis
    using ne by (simp add: preprocess_obj_def tagged_obj_def cs get_centroid_val Let_def)
qed

lemma has_tmp_tagged:
  "loaded_obj ob \<Longrightarrow> has_tmp (metrics_obj (tagged_obj ob)) = qualifying ob"
  by (cases "get_eyes ob" rule: landmark_pair.cases)
     (simp_all add: has_tmp_def metrics_obj_def tagged_obj_def qualifying_def loaded_obj_def
        Let_def)

lemma pop_metrics_tagged:
  "loaded_obj ob \<Longrightarrow> pop_tmp (metrics_obj (tagged_obj ob)) = measured_obj ob"
  by (cases "get_eyes ob" rule: landmark_pair.cases)
     (simp_all add: pop_tmp_def metrics_obj_def tagged_obj_def measured_obj_def loaded_obj_def
        Let_def)

lemma right_center_tagged:
  "qualifying ob \<Longrightarrow> eye_R_center (metrics_obj (tagged_obj ob)) = Some (right_landmark ob)"
  by (cases "get_eyes ob" rule: landmark_pair.cases)
     (simp_all add: metrics_obj_def tagged_obj_def right_landmark_def qualifying_def Let_def)

lemma object_id_tagged: "object_id (metrics_obj (tagged_obj ob)) = object_id ob"
  by (cases "get_eyes ob" rule: landmark_pair.cases)
     (simp_all add: metrics_obj_def tagged_obj_def Let_def split: option.splits)

lemma combinations2_map: "combinations2 (map f xs) = map (map_prod f f) (combinations2 xs)"
  by (induction xs) simp_all

lemma set_combinations2:
  "ab \<in> set (combinations2 xs) \<Longrightarrow> fst ab \<in> set xs \<and> snd ab \<in> set xs"
  by (induction xs) auto

lemma filter_map_cong:
  "(\<And>x. x \<in> set xs \<Longrightarrow> P (f x) = Q x) \<Longrightarrow> filter P (map f xs) = map f (filter Q xs)"
  by (induction xs) simp_all

lemma metrics_record_eq:
  assumes "list_all loaded_obj (objects r)"
  shows "metrics_record (r\<lparr>objects := map tagged_obj (objects r)\<rparr>) = Some (measured_record r)"
proof -
  let ?f = "\<lambda>ob. metrics_obj (tagged_obj ob)"
  let ?q = "combinations2 (filter qualifying (objects r))"
  from assms have ld: "\<And>ob. ob \<in> set (objects r) \<Longrightarrow> loaded_obj ob"
    by (simp add: list_all_iff)
  have flt: "filter has_tmp (map ?f (objects r)) = map ?f (filter qualifying (objects r))"
    by (rule filter_map_cong) (simp add: has_tmp_tagged ld)
  have "map_raise (make_pair \<circ> map_prod ?f ?f) ?q = Some (map pair_of ?q)"
  proof (rule map_raise_Some)
    fix ab assume "ab \<in> set ?q"
    then have "qualifying (fst ab)" "qualifying (snd ab)"
      using set_combinations2 by fastforce+
    then show "(make_pair \<circ> map_prod ?f ?f) ab = Some (pair_of ab)"
      by (cases ab) (simp add: make_pair_def pair_of_def right_center_tagged object_id_tagged)
  qed
  then have mk: "map_raise make_pair (map (map_prod ?f ?f) ?q) = Some (map pair_of ?q)"
    by (simp add: map_raise_map)
  have pop: "map pop_tmp (map ?f (objects r)) = map measured_obj (objects r)"
    by (simp add: pop_metrics_tagged ld)
  show ?thesis
    using mk pop flt
    by (simp add: metrics_record_def measured_record_def Let_def combinations2_map o_def)
qed

lemma preprocess_record_eq:
  assumes "list_all loaded_obj (objects r)"
  shows "preprocess_record r = Some (r\<lparr>objects := map tagged_obj (objects r)\<rparr>)"
proof -
  have "map_raise preprocess_obj (objects r) = Some (map tagged_obj (objects r))"
    using assms by (intro map_raise_Some preprocess_obj_tagged) (simp add: list_all_iff)
  then show ?thesis by (simp add: preprocess_record_def)
qed

lemma preprocess_coordinates_eq:
  assumes "loaded_document data"
  shows "preprocess_coordinates data
       = Some (map (\<lambda>(n, r). (n, r\<lparr>objects := map tagged_obj (objects r)\<rparr>)) data)"
  unfolding preprocess_coordinates_def
proof (rule map_raise_Some)
  fix x assume "x \<in> set data"
  with assms have "list_all loaded_obj (objects (snd x))"
    by (auto simp: loaded_document_def list_all_iff)
  then show "(case x of (img_name, r) \<Rightarrow>
           case preprocess_record r of None \<Rightarrow> None | Some r' \<Rightarrow> Some (img_name, r')) =
         Some (case x of (n, r) \<Rightarrow> (n, r\<lparr>objects := map tagged_obj (objects r)\<rparr>))"
    by (cases x) (simp add: preprocess_record_eq)
qed

lemma calculate_all_metrics_eq:
  assumes "loaded_document data"
  shows "\<exists>n. calculate_all_metrics
               (map (\<lambda>(n, r). (n, r\<lparr>objects := map tagged_obj (objects r)\<rparr>)) data)
            = Some (map (\<lambda>(n, r). (n, measured_record r)) data, n)"
  using assms
proof (induction data)
  case Nil
  then show ?case by simp
next
  case (Cons x data)
  obtain nm r where x: "x = (nm, r)" by (cases x)
  from Cons.prems have l: "list_all loaded_obj (objects r)" and d: "loaded_document data"
    by (simp_all add: loaded_document_def x)
  from Cons.IH [OF d] obtain n where
    "calculate_all_metrics (map (\<lambda>(n, r). (n, r\<lparr>objects := map tagged_obj (objects r)\<rparr>)) data)
       = Some (map (\<lambda>(n, r). (n, measured_record r)) data, n)" ..
  then show ?case
    by (simp add: x metrics_record_eq [OF l])
qed

lemma run_measurement_eq:
  assumes "loaded_document data"
  shows "run_measurement data = Some (map (\<lambda>(n, r). (n, measured_record r)) data)"
proof -
  from calculate_all_metrics_eq [OF assms] obtain n where
    "calculate_all_metrics (map (\<lambda>(n, r). (n, r\<lparr>objects := map tagged_obj (objects r)\<rparr>)) data)
       = Some (map (\<lambda>(n, r). (n, measured_record r)) data, n)" ..
  then show ?thesis
    by (simp add: run_measurement_def preprocess_coordinates_eq [OF assms])
qed

lemma run_measurement_nth:
  assumes "loaded_document data" and "k < length data" and "data ! k = (img_name, r)"
  shows "\<exists>out. run_measurement data = Some out \<and> length out = length data
           \<and> out ! k = (img_name, measured_record r)"
  using assms by (simp add: run_measurement_eq)

subsection \<open>The contour sums are the sums over the edges\<close>

lemma green_sums_zip:
  "green_sums prev ps =
     (sum_list (map (\<lambda>(p, q). cross p q) (zip (prev # ps) ps)),
      sum_list (map (\<lambda>(p, q). (fst p + fst q) * cross p q) (zip (prev # ps) ps)),
      sum_list (map (\<lambda>(p, q). (snd p + snd q) * cross p q) (zip (prev # ps) ps)))"
  by (induction ps arbitrary: prev) (simp_all add: Let_def cross_def algebra_simps)

lemma zip_snoc: "zip (x # xs) (xs @ [y]) = zip (x # xs) xs @ [(last (x # xs), y)]"
  by (induction xs arbitrary: x) simp_all

lemma sum_edges:
  fixes f :: "point \<times> point \<Rightarrow> int"
  assumes "pts \<noteq> []"
  shows "sum_list (map f (zip (last pts # pts) pts)) = sum_list (map f (edges pts))"
proof -
  from assms obtain x xs where pts: "pts = x # xs" by (cases pts) auto
  have "edges pts = zip (x # xs) xs @ [(last pts, x)]"
    by (simp only: edges_def pts rotate1.simps zip_snoc)
  moreover have "zip (last pts # pts) pts = (last pts, x) # zip (x # xs) xs"
    by (simp add: pts)
  ultimately show ?thesis by (simp add: add.commute)
qed

lemma contour_sums_edges:
  "contour_sums pts =
     (sum_list (map (\<lambda>(p, q). cross p q) (edges pts)),
      sum_list (map (\<lambda>(p, q). (fst p + fst q) * cross p q) (edges pts)),
      sum_list (map (\<lambda>(p, q). (snd p + snd q) * cross p q) (edges pts)))"
proof (cases "pts = []")
  case True
  then show ?thesis by (simp add: contour_sums_def edges_def)
next
  case False
  then show ?thesis
    by (simp add: contour_sums_def green_sums_zip sum_edges)
qed

lemma signed_area_shoelace: "signed_area pts = shoelace_area pts"
  by (simp add: signed_area_def shoelace_area_def contour_sums_edges)

lemma polygon_centroid_edges: "polygon_centroid pts = area_centroid pts"
  by (simp add: polygon_centroid_def area_centroid_def contour_sums_edges
        signed_area_shoelace [symmetric] signed_area_def)

subsection \<open>Rounding to two decimals\<close>

lemma py_round_close: "\<bar>of_int (py_round y) - y\<bar> \<le> 1 / 2"
  unfolding py_round_def Let_def by (auto; linarith)

lemma round2_nearest: "nearest_hundredth x (round2 x)"
proof -
  have "\<bar>of_int (py_round (x * 100)) - x * 100\<bar> \<le> 1 / 2"
    by (rule py_round_close)
  then have "\<bar>of_int (py_round (x * 100)) / 100 - x\<bar> \<le> 1 / 200"
    by (simp add: field_simps abs_le_iff)
  then show ?thesis
    unfolding nearest_hundredth_def round2_def by blast
qed

lemma round2_sqrt2: "round2 (sqrt 2) = 141 / 100"
proof -
  have lo: "141 / 100 \<le> sqrt 2"
    by (rule real_le_rsqrt) (simp add: power2_eq_square)
  have hi: "sqrt 2 < 283 / 200"
    by (rule real_less_lsqrt) (simp_all add: power2_eq_square)
  from lo hi have f: "\<lfloor>sqrt 2 * 100\<rfloor> = 141"
    by (intro floor_unique) simp_all
  from hi have "sqrt 2 * 100 - 141 < 1 / 2" by simp
  then have "py_round (sqrt 2 * 100) = 141"
    by (simp add: py_round_def Let_def f)
  then show ?thesis by (simp add: round2_def)
qed


lemma length_combinations2: "length (combinations2 xs) = length xs * (length xs - 1) div 2"
proof (induction xs)
  case Nil
  then show ?case by simp
next
  case (Cons x xs)
  have "length xs + length xs * (length xs - 1) div 2 = (length xs + 1) * length xs div 2"
    by (cases "length xs") simp_all
  with Cons show ?case by simp
qed

lemma combinations2_index:
  "combinations2 xs
     = concat (map (\<lambda>i. map (\<lambda>j. (xs ! i, xs ! j)) [Suc i..<length xs]) [0..<length xs])"
proof (induction xs)
  case Nil
  then show ?case by simp
next
  case (Cons x xs)
  have hd: "map (\<lambda>j. ((x # xs) ! 0, (x # xs) ! j)) [Suc 0..<Suc (length xs)] = map (Pair x) xs"
  proof -
    have "map (\<lambda>j. ((x # xs) ! 0, (x # xs) ! j)) (map Suc [0..<length xs])
        = map (Pair x) (map ((!) xs) [0..<length xs])"
      by (simp add: o_def)
    then show ?thesis by (simp only: map_Suc_upt map_nth)
  qed
  have tl: "map (\<lambda>i. map (\<lambda>j. ((x # xs) ! i, (x # xs) ! j)) [Suc i..<Suc (length xs)])
              (map Suc [0..<length xs])
          = map (\<lambda>i. map (\<lambda>j. (xs ! i, xs ! j)) [Suc i..<length xs]) [0..<length xs]"
  proof -
    have "\<And>i. map (\<lambda>j. ((x # xs) ! Suc i, (x # xs) ! j)) [Suc (Suc i)..<Suc (length xs)]
             = map (\<lambda>j. (xs ! i, xs ! j)) [Suc i..<length xs]"
      subgoal for i
        using map_Suc_upt [of "Suc i" "length xs"] 
        by (metis (no_types, lifting) List.map.compositionality map_eq_conv nth_Cons_Suc o_apply)
      done
    then show ?thesis by (simp add: o_def)
  qed
  have "[0..<length (x # xs)] = 0 # map Suc [0..<length xs]"
    by (simp add: upt_conv_Cons map_Suc_upt del: upt_Suc)
  then have "concat (map (\<lambda>i. map (\<lambda>j. ((x # xs) ! i, (x # xs) ! j)) [Suc i..<length (x # xs)])
                 [0..<length (x # xs)])
      = map (\<lambda>j. ((x # xs) ! 0, (x # xs) ! j)) [Suc 0..<Suc (length xs)]
        @ concat (map (\<lambda>i. map (\<lambda>j. ((x # xs) ! i, (x # xs) ! j)) [Suc i..<Suc (length xs)])
                    (map Suc [0..<length xs]))"
    by simp
  also have "\<dots> = map (Pair x) xs @ combinations2 xs"
    by (simp only: hd tl Cons.IH)
  finally show ?case by simp
qed


text \<open>
  C5. The centroid computation returns a point for every contour that has points: when
  the signed area of the polygon is not zero, the centroid of the polygon with each
  coordinate truncated toward zero; when it is zero (the collinear case included), the
  mean of the points, truncated.
\<close>

theorem get_centroid_total:
  assumes "pts \<noteq> []"
  shows "\<exists>c. get_centroid pts = Some c \<and>
           (shoelace_area pts \<noteq> 0 \<longrightarrow>
              c = (py_int (fst (area_centroid pts)), py_int (snd (area_centroid pts)))) \<and>
           (shoelace_area pts = 0 \<longrightarrow>
              c = (py_int (of_int (sum_list (map fst pts)) / of_nat (length pts)),
                   py_int (of_int (sum_list (map snd pts)) / of_nat (length pts))))"
  using assms
  by (simp add: get_centroid_val centroid_val_exact exact_centroid_def
        signed_area_shoelace polygon_centroid_edges mean_point_def)

theorem get_centroid_total_witness:
  "shoelace_area l_shape = 19 \<and> area_centroid l_shape = (327 / 114, 327 / 114) \<and>
   get_centroid l_shape = Some (2, 2) \<and>
   shoelace_area collinear = 0 \<and> get_centroid collinear = Some (1, 1)"
proof -
  have ne: "l_shape \<noteq> []" by (simp add: l_shape_def)
  have a: "shoelace_area l_shape = 19"
    by (simp add: shoelace_area_def edges_def cross_def l_shape_def)
  have c: "area_centroid l_shape = (327 / 114, 327 / 114)"
    by (simp add: area_centroid_def a) (simp add: edges_def cross_def l_shape_def)
  from get_centroid_total [OF ne] obtain p where p: "get_centroid l_shape = Some p"
    "shoelace_area l_shape \<noteq> 0 \<longrightarrow>
       p = (py_int (fst (area_centroid l_shape)), py_int (snd (area_centroid l_shape)))"
    by (elim exE conjE)
  from p(2) have "p = (2, 2)"
    by (simp add: a c py_int_def)
  with p(1) have l: "get_centroid l_shape = Some (2, 2)" by simp
  have ne': "collinear \<noteq> []" by (simp add: collinear_def)
  have z: "shoelace_area collinear = 0"
    by (simp add: shoelace_area_def edges_def cross_def collinear_def)
  from get_centroid_total [OF ne'] obtain p' where p': "get_centroid collinear = Some p'"
    "shoelace_area collinear = 0 \<longrightarrow>
       p' = (py_int (of_int (sum_list (map fst collinear)) / of_nat (length collinear)),
             py_int (of_int (sum_list (map snd collinear)) / of_nat (length collinear)))"
    by (elim exE conjE)
  from p'(2) z have "p' = (1, 1)"
    by (simp add: collinear_def py_int_def)
  with p'(1) have m: "get_centroid collinear = Some (1, 1)" by simp
  from a c l z m show ?thesis by (intro conjI)
qed

text \<open>
  C10. A centroid has integer coordinates: with a non-zero area each is the moment ratio
  truncated toward zero, otherwise the mean of the points truncated toward zero; either
  way it is less than one pixel away from the exact value and not larger in magnitude,
  and the distance from a centroid to any other point of the pixel grid is the square
  root of a natural number.
\<close>

theorem centroid_truncated:
  assumes "get_centroid pts = Some c"
  shows "(m00 (moments pts) \<noteq> 0 \<longrightarrow>
            c = (py_int (m10 (moments pts) / m00 (moments pts)),
                 py_int (m01 (moments pts) / m00 (moments pts)))) \<and>
         (m00 (moments pts) = 0 \<longrightarrow>
            c = (py_int (fst (mean_point pts)), py_int (snd (mean_point pts)))) \<and>
         \<bar>of_int (fst c) - fst (exact_centroid pts)\<bar> < 1 \<and>
         \<bar>of_int (snd c) - snd (exact_centroid pts)\<bar> < 1 \<and>
         \<bar>of_int (fst c) :: real\<bar> \<le> \<bar>fst (exact_centroid pts)\<bar> \<and>
         \<bar>of_int (snd c) :: real\<bar> \<le> \<bar>snd (exact_centroid pts)\<bar> \<and>
         (\<forall>q. \<exists>n :: nat. calculate_euclidean_distance c q = sqrt (of_nat n))"
proof -
  from assms have ne: "pts \<noteq> []"
    by (auto simp: get_centroid_def split: if_splits)
  with assms have c: "c = centroid_val pts"
    by (simp add: get_centroid_val)
  have dist: "\<exists>n :: nat. calculate_euclidean_distance c q = sqrt (of_nat n)" for q
  proof -
    let ?n = "(fst c - fst q)\<^sup>2 + (snd c - snd q)\<^sup>2"
    have "0 \<le> ?n" by simp
    then have "(of_nat (nat ?n) :: real) = of_int ?n"
      by (metis of_int_of_nat_eq int_nat_eq)
    then show ?thesis
      unfolding calculate_euclidean_distance_def by metis
  qed
  have a: "(m00 (moments pts) \<noteq> 0 \<longrightarrow>
            c = (py_int (m10 (moments pts) / m00 (moments pts)),
                 py_int (m01 (moments pts) / m00 (moments pts)))) \<and>
         (m00 (moments pts) = 0 \<longrightarrow>
            c = (py_int (fst (mean_point pts)), py_int (snd (mean_point pts))))"
    by (simp add: c centroid_val_def Let_def)
  have b: "\<bar>of_int (fst c) - fst (exact_centroid pts)\<bar> < 1"
          "\<bar>of_int (snd c) - snd (exact_centroid pts)\<bar> < 1"
          "\<bar>of_int (fst c) :: real\<bar> \<le> \<bar>fst (exact_centroid pts)\<bar>"
          "\<bar>of_int (snd c) :: real\<bar> \<le> \<bar>snd (exact_centroid pts)\<bar>"
    by (simp_all add: c centroid_val_exact py_int_close py_int_toward_zero)
  from a b dist show ?thesis by blast
qed

theorem centroid_truncated_witness:
  "get_centroid [(0, 0), (1, 1), (3, 3)] = Some (1, 1)
     \<and> fst (exact_centroid [(0, 0), (1, 1), (3, 3)]) = 4 / 3
     \<and> \<bar>of_int (fst ((1, 1) :: point)) - fst (exact_centroid [(0, 0), (1, 1), (3, 3)])\<bar> < 1"
proof -
  have g: "get_centroid [(0, 0), (1, 1), (3, 3)] = Some (1, 1)"
    by (simp add: get_centroid_def moments_def contour_sums_def mean_point_def py_int_def Let_def)
  have e: "fst (exact_centroid [(0, 0), (1, 1), (3, 3)]) = 4 / 3"
    by (simp add: exact_centroid_def signed_area_def contour_sums_def mean_point_def Let_def)
  from centroid_truncated [OF g] g e show ?thesis by blast
qed

text \<open>
  C4. In an object with exactly two eye contours the two centroids are stored sorted by
  their horizontal coordinate: the left landmark's is at most the right landmark's, and
  when the two are equal the first contour's centroid is the left landmark.
\<close>

theorem landmarks_sorted:
  assumes "loaded_document data" and "k < length data" and "data ! k = (img_name, r)"
    and "i < length (objects r)" and "eyes (objects r ! i) = Some [c1, c2]"
  shows "\<exists>out r' p1 p2 l rt.
           run_measurement data = Some out \<and> out ! k = (img_name, r') \<and>
           length (objects r') = length (objects r) \<and>
           get_centroid c1 = Some p1 \<and> get_centroid c2 = Some p2 \<and>
           eye_L_center (objects r' ! i) = Some l \<and> eye_R_center (objects r' ! i) = Some rt \<and>
           (l, rt) = (if fst p1 \<le> fst p2 then (p1, p2) else (p2, p1)) \<and> fst l \<le> fst rt"
proof -
  from run_measurement_nth [OF assms(1-3)] obtain out where
    out: "run_measurement data = Some out" "out ! k = (img_name, measured_record r)"
    by blast
  have ge: "get_eyes (objects r ! i) = [c1, c2]"
    using assms(5) by (simp add: get_eyes_def)
  from assms have "loaded_obj (objects r ! i)"
    by (auto simp: loaded_document_def list_all_length split: prod.splits) 
  with ge have ne: "c1 \<noteq> []" "c2 \<noteq> []"
    by (simp_all add: loaded_obj_def)
  define l where "l = (if fst (centroid_val c1) \<le> fst (centroid_val c2)
                       then centroid_val c1 else centroid_val c2)"
  define rt where "rt = (if fst (centroid_val c1) \<le> fst (centroid_val c2)
                        then centroid_val c2 else centroid_val c1)"
  have m: "measured_obj (objects r ! i) =
          (objects r ! i)\<lparr>eyes_dist := Some (round2 (calculate_euclidean_distance l rt)),
                 eye_L_center := Some l, eye_R_center := Some rt\<rparr>"
    by (simp add: measured_obj_def ge Let_def l_def rt_def)
  have o: "objects (measured_record r) ! i = measured_obj (objects r ! i)"
    using assms(4) by (simp add: measured_record_def)
  have 1: "length (objects (measured_record r)) = length (objects r)"
    by (simp add: measured_record_def)
  have 2: "eye_L_center (objects (measured_record r) ! i) = Some l"
          "eye_R_center (objects (measured_record r) ! i) = Some rt"
    by (simp_all add: o m)
  have 3: "(l, rt) = (if fst (centroid_val c1) \<le> fst (centroid_val c2)
                      then (centroid_val c1, centroid_val c2)
                      else (centroid_val c2, centroid_val c1))"
    by (simp add: l_def rt_def)
  have 4: "fst l \<le> fst rt"
    by (simp add: l_def rt_def)
  from out 1 2 3 4 get_centroid_val [OF ne(1)] get_centroid_val [OF ne(2)]
  show ?thesis by blast
qed

lemma synthetic_loaded:
  assumes "0 < h1" "0 < h2" "0 < h3" "0 < h4"
  shows "loaded_document (synthetic_document h1 h2 h3 h4)"
  by (simp add: loaded_document_def synthetic_document_def synthetic_objects_def loaded_obj_def
        detected_obj_def get_eyes_def square_def)

lemma synthetic_eyes:
  "eyes (synthetic_objects h1 h2 h3 h4 ! 0) = Some [square 50 50 h1, square 70 50 h2]"
  "eyes (synthetic_objects h1 h2 h3 h4 ! 1) = Some [square 150 50 h3, square 170 50 h4]"
  by (simp_all add: synthetic_objects_def)

lemma get_centroid_square:
  assumes "0 < h"
  shows "get_centroid (square cx cy h) = Some (cx, cy)"
proof -
  have "square cx cy h \<noteq> []" by (simp add: square_def)
  then show ?thesis by (simp add: get_centroid_val centroid_val_square [OF assms])
qed

theorem landmarks_sorted_witness:
  "loaded_document (synthetic_document 5 5 5 5) \<and>
   (\<exists>out r'. run_measurement (synthetic_document 5 5 5 5) = Some out \<and>
      out ! 0 = (''synthetic.png'', r') \<and>
      eye_L_center (objects r' ! 0) = Some (50, 50) \<and>
      eye_R_center (objects r' ! 0) = Some (70, 50))"
proof -
  let ?r = "\<lparr>width = 200, height = 200, animals_found = 2,
             objects = synthetic_objects 5 5 5 5, pairs = None\<rparr>"
  have ld: "loaded_document (synthetic_document 5 5 5 5)"
    by (rule synthetic_loaded) simp_all
  have k: "0 < length (synthetic_document 5 5 5 5)"
    "synthetic_document 5 5 5 5 ! 0 = (''synthetic.png'', ?r)"
    by (simp_all add: synthetic_document_def)
  have i: "0 < length (objects ?r)"
    "eyes (objects ?r ! 0) = Some [square 50 50 5, square 70 50 5]"
    by (simp_all add: synthetic_objects_def)
  from landmarks_sorted [OF ld k i] obtain out r' p1 p2 l rt where
    *: "run_measurement (synthetic_document 5 5 5 5) = Some out"
       "out ! 0 = (''synthetic.png'', r')"
       "get_centroid (square 50 50 5) = Some p1" "get_centroid (square 70 50 5) = Some p2"
       "eye_L_center (objects r' ! 0) = Some l" "eye_R_center (objects r' ! 0) = Some rt"
       "(l, rt) = (if fst p1 \<le> fst p2 then (p1, p2) else (p2, p1))"
    by blast
  from *(3,4) have "p1 = (50, 50)" "p2 = (70, 50)"
    by (simp_all add: get_centroid_square)
  with *(7) have "l = (50, 50)" "rt = (70, 50)" by simp_all
  with * ld show ?thesis by blast
qed

text \<open>
  C3. An object whose eye sequence does not hold exactly two contours comes out of the
  measurement pass as it went in (no distance and no landmark is written to it), it is
  not among the objects the pair records are built from, and, identifiers being unique
  within the image, no pair record names it.
\<close>

theorem non_qualifying_untouched:
  assumes "loaded_document data" and "k < length data" and "data ! k = (img_name, r)"
    and "i < length (objects r)" and "length (get_eyes (objects r ! i)) \<noteq> 2"
  shows "\<exists>out r' ps.
           run_measurement data = Some out \<and> out ! k = (img_name, r') \<and>
           length (objects r') = length (objects r) \<and>
           objects r' ! i = objects r ! i \<and>
           pairs r' = Some ps \<and>
           ps = map pair_of (combinations2 (filter (\<lambda>ob. length (get_eyes ob) = 2) (objects r))) \<and>
           objects r ! i \<notin> set (filter (\<lambda>ob. length (get_eyes ob) = 2) (objects r)) \<and>
           (distinct (map object_id (objects r)) \<longrightarrow>
              (\<forall>p \<in> set ps. obj_1_id p \<noteq> object_id (objects r ! i) \<and>
                            obj_2_id p \<noteq> object_id (objects r ! i)))"
proof -
  let ?ob = "objects r ! i"
  let ?q = "filter (\<lambda>ob. length (get_eyes ob) = 2) (objects r)"
  let ?ps = "map pair_of (combinations2 ?q)"
  from run_measurement_nth [OF assms(1-3)] obtain out where
    out: "run_measurement data = Some out" "out ! k = (img_name, measured_record r)"
    by blast
  have same: "objects (measured_record r) ! i = ?ob"
    using assms(4,5) by (simp add: measured_record_def measured_obj_def landmark_pair_None)
  have len: "length (objects (measured_record r)) = length (objects r)"
    by (simp add: measured_record_def)
  have ps: "pairs (measured_record r) = Some ?ps"
    by (simp add: measured_record_def qualifying_def [abs_def])
  have notin: "?ob \<notin> set ?q"
    using assms(5) by simp
  have ids: "obj_1_id p \<noteq> object_id ?ob \<and> obj_2_id p \<noteq> object_id ?ob"
    if d: "distinct (map object_id (objects r))" and p: "p \<in> set ?ps" for p
  proof -
    from p obtain ab where ab: "ab \<in> set (combinations2 ?q)" "p = pair_of ab" by auto
    from set_combinations2 [OF ab(1)] have q: "fst ab \<in> set ?q" "snd ab \<in> set ?q" by simp_all
    from d have inj: "inj_on object_id (set (objects r))" by (simp add: distinct_map)
    have mem: "?ob \<in> set (objects r)" using assms(4) by simp
    have "object_id (fst ab) \<noteq> object_id ?ob"
      using q(1) notin inj mem by (metis (no_types, lifting) inj_onD filter_is_subset subsetD)
    moreover have "object_id (snd ab) \<noteq> object_id ?ob"
      using q(2) notin inj mem by (metis (no_types, lifting) inj_onD filter_is_subset subsetD)
    ultimately show ?thesis by (simp add: ab(2) pair_of_def)
  qed
  from out same len ps notin ids show ?thesis by blast
qed

text \<open>
  C6. The pairs of an image after the measurement pass are exactly these: with \<open>q\<close> the
  objects holding two eye contours, in their order in the image, one record for every
  \<open>i < j\<close>, ordered by \<open>i\<close> and then \<open>j\<close>, holding the identifier of \<open>q ! i\<close>, then that of
  \<open>q ! j\<close>, and the distance between their right landmarks rounded to two decimals:
  a multiple of 0.01 that is within 0.005 of the square root of the sum of the squared
  coordinate differences. The right landmark is the one stored in the object. What the
  \<^verbatim>\<open>pairs\<close> key held before has no part in it.
\<close>

theorem pairs_regenerated:
  assumes "loaded_document data" and "k < length data" and "data ! k = (img_name, r)"
    and "q = filter (\<lambda>ob. length (get_eyes ob) = 2) (objects r)"
  shows "\<exists>out r' ps.
           run_measurement data = Some out \<and> out ! k = (img_name, r') \<and>
           pairs r' = Some ps \<and>
           ps = concat (map (\<lambda>i. map (\<lambda>j.
                   \<lparr>obj_1_id = object_id (q ! i), obj_2_id = object_id (q ! j),
                    right_eye_dist = round2 (calculate_euclidean_distance
                      (right_landmark (q ! i)) (right_landmark (q ! j)))\<rparr>)
                   [Suc i..<length q]) [0..<length q]) \<and>
           length ps = length q * (length q - 1) div 2 \<and>
           length (objects r') = length (objects r) \<and>
           (\<forall>i < length (objects r). length (get_eyes (objects r ! i)) = 2 \<longrightarrow>
              eye_R_center (objects r' ! i) = Some (right_landmark (objects r ! i))) \<and>
           (\<forall>p \<in> set ps. \<exists>i j. i < j \<and> j < length q \<and>
              obj_1_id p = object_id (q ! i) \<and> obj_2_id p = object_id (q ! j) \<and>
              nearest_hundredth
                (sqrt (of_int ((fst (right_landmark (q ! i)) - fst (right_landmark (q ! j)))\<^sup>2
                             + (snd (right_landmark (q ! i)) - snd (right_landmark (q ! j)))\<^sup>2)))
                (right_eye_dist p))"
proof -
  let ?ps = "concat (map (\<lambda>i. map (\<lambda>j.
                   \<lparr>obj_1_id = object_id (q ! i), obj_2_id = object_id (q ! j),
                    right_eye_dist = round2 (calculate_euclidean_distance
                      (right_landmark (q ! i)) (right_landmark (q ! j)))\<rparr>)
                   [Suc i..<length q]) [0..<length q])"
  from run_measurement_nth [OF assms(1-3)] obtain out where
    out: "run_measurement data = Some out" "out ! k = (img_name, measured_record r)"
    by blast
  have q: "filter qualifying (objects r) = q"
    by (simp add: assms(4) qualifying_def [abs_def])
  have idx: "map pair_of (combinations2 q) = ?ps"
    by (subst combinations2_index) (simp add: map_concat o_def pair_of_def)
  have ps: "pairs (measured_record r) = Some ?ps"
    by (simp add: measured_record_def q idx)
  have len: "length ?ps = length q * (length q - 1) div 2"
    by (simp only: idx [symmetric] length_map length_combinations2)
  have lo: "length (objects (measured_record r)) = length (objects r)"
    by (simp add: measured_record_def)
  have rl: "\<forall>i < length (objects r). length (get_eyes (objects r ! i)) = 2 \<longrightarrow>
      eye_R_center (objects (measured_record r) ! i) = Some (right_landmark (objects r ! i))"
  proof (intro allI impI)
    fix i assume "i < length (objects r)" "length (get_eyes (objects r ! i)) = 2"
    then show "eye_R_center (objects (measured_record r) ! i)
             = Some (right_landmark (objects r ! i))"
      by (cases "get_eyes (objects r ! i)" rule: landmark_pair.cases)
         (simp_all add: measured_record_def measured_obj_def right_landmark_def Let_def)
  qed
  have near: "\<forall>p \<in> set ?ps. \<exists>i j. i < j \<and> j < length q \<and>
              obj_1_id p = object_id (q ! i) \<and> obj_2_id p = object_id (q ! j) \<and>
              nearest_hundredth
                (sqrt (of_int ((fst (right_landmark (q ! i)) - fst (right_landmark (q ! j)))\<^sup>2
                             + (snd (right_landmark (q ! i)) - snd (right_landmark (q ! j)))\<^sup>2)))
                (right_eye_dist p)"
  proof
    fix p assume "p \<in> set ?ps"
    then obtain i j where ij: "i < j" "j < length q"
      and p: "obj_1_id p = object_id (q ! i)" "obj_2_id p = object_id (q ! j)"
        "right_eye_dist p = round2 (calculate_euclidean_distance
                      (right_landmark (q ! i)) (right_landmark (q ! j)))"
      by (fastforce simp add: Suc_le_eq)
    have "nearest_hundredth
            (sqrt (of_int ((fst (right_landmark (q ! i)) - fst (right_landmark (q ! j)))\<^sup>2
                         + (snd (right_landmark (q ! i)) - snd (right_landmark (q ! j)))\<^sup>2)))
            (right_eye_dist p)"
      unfolding p(3) calculate_euclidean_distance_def
      by (rule round2_nearest)
    with ij p(1,2) show "\<exists>i j. i < j \<and> j < length q \<and>
              obj_1_id p = object_id (q ! i) \<and> obj_2_id p = object_id (q ! j) \<and>
              nearest_hundredth
                (sqrt (of_int ((fst (right_landmark (q ! i)) - fst (right_landmark (q ! j)))\<^sup>2
                             + (snd (right_landmark (q ! i)) - snd (right_landmark (q ! j)))\<^sup>2)))
                (right_eye_dist p)"
      by (intro exI [of _ i] exI [of _ j]) simp
  qed
  from out ps len lo rl near show ?thesis
    by (intro exI [of _ out] exI [of _ "measured_record r"] exI [of _ ?ps] conjI refl)
qed

lemma distance_horizontal:
  "calculate_euclidean_distance (a, y) (b, y) = of_int \<bar>a - b\<bar>"
  by (simp add: calculate_euclidean_distance_def)

lemma rounded_distance_horizontal:
  "round2 (calculate_euclidean_distance (a, y) (b, y)) = of_int \<bar>a - b\<bar>"
  by (simp only: distance_horizontal round2_of_int)

lemma landmark_pair_squares:
  assumes "0 < h" "0 < h'"
  shows "landmark_pair [square cx cy h, square cx' cy' h']
       = Some (if cx \<le> cx' then ((cx, cy), (cx', cy')) else ((cx', cy'), (cx, cy)))"
  using assms by (simp add: centroid_val_square)

theorem non_qualifying_untouched_witness:
  "loaded_document mixed_document \<and> length (get_eyes one_eyed) \<noteq> 2 \<and>
   (\<exists>out r' ps. run_measurement mixed_document = Some out \<and>
      out ! 0 = (''mixed.png'', r') \<and> objects r' ! 2 = one_eyed \<and>
      eyes_dist (objects r' ! 2) = None \<and> eye_L_center (objects r' ! 2) = None \<and>
      eye_R_center (objects r' ! 2) = None \<and>
      pairs r' = Some ps \<and> (\<forall>p \<in> set ps. obj_1_id p \<noteq> Some 2 \<and> obj_2_id p \<noteq> Some 2))"
proof -
  let ?r = "\<lparr>width = 200, height = 200, animals_found = 3,
             objects = synthetic_objects 5 5 5 5 @ [one_eyed], pairs = None\<rparr>"
  have ld: "loaded_document mixed_document"
    by (simp add: loaded_document_def mixed_document_def synthetic_objects_def loaded_obj_def
          detected_obj_def get_eyes_def square_def one_eyed_def)
  have k: "0 < length mixed_document" "mixed_document ! 0 = (''mixed.png'', ?r)"
    by (simp_all add: mixed_document_def)
  have i: "2 < length (objects ?r)" by (simp add: synthetic_objects_def)
  have o: "objects ?r ! 2 = one_eyed" by (simp add: synthetic_objects_def)
  have n: "length (get_eyes one_eyed) \<noteq> 2"
    by (simp add: one_eyed_def get_eyes_def)
  have d: "distinct (map object_id (objects ?r))"
    by (simp add: synthetic_objects_def one_eyed_def detected_obj_def)
  have id: "object_id one_eyed = Some 2" "eyes_dist one_eyed = None"
    "eye_L_center one_eyed = None" "eye_R_center one_eyed = None"
    by (simp_all add: one_eyed_def detected_obj_def)
  from n o have n': "length (get_eyes (objects ?r ! 2)) \<noteq> 2" by simp
  from non_qualifying_untouched [OF ld k i n'] obtain out r' ps where
    *: "run_measurement mixed_document = Some out" "out ! 0 = (''mixed.png'', r')"
       "objects r' ! 2 = objects ?r ! 2" "pairs r' = Some ps"
       "distinct (map object_id (objects ?r)) \<longrightarrow>
          (\<forall>p \<in> set ps. obj_1_id p \<noteq> object_id (objects ?r ! 2) \<and>
                        obj_2_id p \<noteq> object_id (objects ?r ! 2))"
    by blast
  from mp [OF *(5) d] have "\<forall>p \<in> set ps. obj_1_id p \<noteq> Some 2 \<and> obj_2_id p \<noteq> Some 2"
    unfolding o id .
  moreover from *(3) have same: "objects r' ! 2 = one_eyed" by (simp only: o)
  moreover have "eyes_dist (objects r' ! 2) = None" "eye_L_center (objects r' ! 2) = None"
    "eye_R_center (objects r' ! 2) = None"
    by (simp_all only: same id)
  ultimately have "\<exists>out r' ps. run_measurement mixed_document = Some out \<and>
      out ! 0 = (''mixed.png'', r') \<and> objects r' ! 2 = one_eyed \<and>
      eyes_dist (objects r' ! 2) = None \<and> eye_L_center (objects r' ! 2) = None \<and>
      eye_R_center (objects r' ! 2) = None \<and>
      pairs r' = Some ps \<and> (\<forall>p \<in> set ps. obj_1_id p \<noteq> Some 2 \<and> obj_2_id p \<noteq> Some 2)"
    using *(1,2,4) by (intro exI [of _ out] exI [of _ r'] exI [of _ ps]) simp
  with ld n show ?thesis by (intro conjI)
qed

theorem pairs_regenerated_witness:
  "loaded_document reordered_document \<and>
   (\<exists>out r'. run_measurement reordered_document = Some out \<and>
      out ! 0 = (''reordered.png'', r') \<and>
      pairs r' = Some [\<lparr>obj_1_id = Some 5, obj_2_id = Some 2, right_eye_dist = 141 / 100\<rparr>]) \<and>
   nearest_hundredth (sqrt 2) (141 / 100)"
proof -
  let ?r = "\<lparr>width = 200, height = 200, animals_found = 2, objects = reordered_objects,
        pairs = Some [\<lparr>obj_1_id = Some 9, obj_2_id = Some 8, right_eye_dist = 1\<rparr>]\<rparr>"
  have ld: "loaded_document reordered_document"
    by (simp add: loaded_document_def reordered_document_def reordered_objects_def loaded_obj_def
          detected_obj_def get_eyes_def square_def)
  have k: "0 < length reordered_document" "reordered_document ! 0 = (''reordered.png'', ?r)"
    by (simp_all add: reordered_document_def)
  have q: "reordered_objects = filter (\<lambda>ob. length (get_eyes ob) = 2) (objects ?r)"
    by (simp add: reordered_objects_def get_eyes_def)
  have r0: "right_landmark (reordered_objects ! 0) = (70, 50)"
    by (simp add: reordered_objects_def right_landmark_def get_eyes_def landmark_pair_squares
          del: landmark_pair.simps)
  have r1: "right_landmark (reordered_objects ! 1) = (71, 51)"
    by (simp add: reordered_objects_def right_landmark_def get_eyes_def landmark_pair_squares
          del: landmark_pair.simps)
  have ids: "object_id (reordered_objects ! 0) = Some 5" "object_id (reordered_objects ! 1) = Some 2"
    by (simp_all add: reordered_objects_def detected_obj_def)
  have len: "length reordered_objects = 2" by (simp add: reordered_objects_def)
  have two: "[0..<2] = [0, Suc 0]" "[Suc 0..<2] = [Suc 0]" "[Suc (Suc 0)..<2] = []"
    by (simp_all add: upt_rec)
  have d: "calculate_euclidean_distance (70, 50) (71, 51) = sqrt 2"
    by (simp add: calculate_euclidean_distance_def)
  from pairs_regenerated [OF ld k q] obtain out r' ps where
    *: "run_measurement reordered_document = Some out" "out ! 0 = (''reordered.png'', r')"
       "pairs r' = Some ps"
       "ps = concat (map (\<lambda>i. map (\<lambda>j.
                   \<lparr>obj_1_id = object_id (reordered_objects ! i),
                    obj_2_id = object_id (reordered_objects ! j),
                    right_eye_dist = round2 (calculate_euclidean_distance
                      (right_landmark (reordered_objects ! i))
                      (right_landmark (reordered_objects ! j)))\<rparr>)
                   [Suc i..<length reordered_objects]) [0..<length reordered_objects])"
       "\<forall>p \<in> set ps. \<exists>i j. i < j \<and> j < length reordered_objects \<and>
              obj_1_id p = object_id (reordered_objects ! i) \<and>
              obj_2_id p = object_id (reordered_objects ! j) \<and>
              nearest_hundredth
                (sqrt (of_int ((fst (right_landmark (reordered_objects ! i))
                                 - fst (right_landmark (reordered_objects ! j)))\<^sup>2
                             + (snd (right_landmark (reordered_objects ! i))
                                 - snd (right_landmark (reordered_objects ! j)))\<^sup>2)))
                (right_eye_dist p)"
    by (elim exE conjE)
  from *(4) have ps: "ps = [\<lparr>obj_1_id = Some 5, obj_2_id = Some 2, right_eye_dist = 141 / 100\<rparr>]"
    using r0 r1 ids by (simp add: len two d round2_sqrt2)
  from *(5) obtain i j where ij: "i < j" "j < length reordered_objects"
    and n: "nearest_hundredth
                (sqrt (of_int ((fst (right_landmark (reordered_objects ! i))
                                 - fst (right_landmark (reordered_objects ! j)))\<^sup>2
                             + (snd (right_landmark (reordered_objects ! i))
                                 - snd (right_landmark (reordered_objects ! j)))\<^sup>2)))
                (141 / 100)"
    unfolding ps by auto
  from ij have "i = 0" "j = 1" by (simp_all add: len)
  with n r0 r1 have near: "nearest_hundredth (sqrt 2) (141 / 100)"
    by simp
  from *(3) ps have "pairs r' = Some [\<lparr>obj_1_id = Some 5, obj_2_id = Some 2,
      right_eye_dist = 141 / 100\<rparr>]"
    by simp
  with *(1,2) have "\<exists>out r'. run_measurement reordered_document = Some out \<and>
      out ! 0 = (''reordered.png'', r') \<and>
      pairs r' = Some [\<lparr>obj_1_id = Some 5, obj_2_id = Some 2, right_eye_dist = 141 / 100\<rparr>]"
    by (intro exI [of _ out] exI [of _ r']) simp
  with ld near show ?thesis by (intro conjI)
qed

text \<open>
  C2. The end-to-end example: in the 200 x 200 image whose object 0 has square eye
  contours around (50,50) and (70,50) and whose object 1 has them around (150,50) and
  (170,50), the measurement pass stores the distance 20 in either object and exactly one
  pair record, between the right landmarks (70,50) and (170,50), with the distance 100.
\<close>

theorem end_to_end_distances:
  assumes "0 < h1" and "0 < h2" and "0 < h3" and "0 < h4"
  shows "\<exists>r'. run_measurement (synthetic_document h1 h2 h3 h4) = Some [(''synthetic.png'', r')] \<and>
           width r' = 200 \<and> height r' = 200 \<and>
           map eyes_dist (objects r') = [Some 20, Some 20] \<and>
           map eye_R_center (objects r') = [Some (70, 50), Some (170, 50)] \<and>
           pairs r' = Some [\<lparr>obj_1_id = Some 0, obj_2_id = Some 1, right_eye_dist = 100\<rparr>]"
proof -
  let ?r = "\<lparr>width = 200, height = 200, animals_found = 2,
             objects = synthetic_objects h1 h2 h3 h4, pairs = None\<rparr>"
  have run: "run_measurement (synthetic_document h1 h2 h3 h4)
           = Some [(''synthetic.png'', measured_record ?r)]"
    using run_measurement_eq [OF synthetic_loaded [OF assms]]
    by (simp add: synthetic_document_def)
  have lp: "landmark_pair [square 50 50 h1, square 70 50 h2] = Some ((50, 50), (70, 50))"
           "landmark_pair [square 150 50 h3, square 170 50 h4] = Some ((150, 50), (170, 50))"
    using assms by (simp_all add: landmark_pair_squares del: landmark_pair.simps)
  have m: "map measured_obj (synthetic_objects h1 h2 h3 h4) =
           [(synthetic_objects h1 h2 h3 h4 ! 0)\<lparr>eyes_dist := Some 20,
               eye_L_center := Some (50, 50), eye_R_center := Some (70, 50)\<rparr>,
            (synthetic_objects h1 h2 h3 h4 ! 1)\<lparr>eyes_dist := Some 20,
               eye_L_center := Some (150, 50), eye_R_center := Some (170, 50)\<rparr>]"
    by (simp add: synthetic_objects_def measured_obj_def get_eyes_def lp
          rounded_distance_horizontal del: landmark_pair.simps)
  have q: "filter qualifying (synthetic_objects h1 h2 h3 h4) = synthetic_objects h1 h2 h3 h4"
    by (simp add: synthetic_objects_def qualifying_def get_eyes_def)
  have p: "map pair_of (combinations2 (synthetic_objects h1 h2 h3 h4))
         = [\<lparr>obj_1_id = Some 0, obj_2_id = Some 1, right_eye_dist = 100\<rparr>]"
    by (simp add: synthetic_objects_def pair_of_def right_landmark_def get_eyes_def lp
          rounded_distance_horizontal detected_obj_def del: landmark_pair.simps)
  show ?thesis
    by (simp add: run measured_record_def m q p)
qed

theorem end_to_end_distances_witness:
  "(0 :: int) < 5 \<and>
   (\<exists>r'. run_measurement (synthetic_document 5 5 5 5) = Some [(''synthetic.png'', r')] \<and>
      width r' = 200 \<and> height r' = 200 \<and>
      map eyes_dist (objects r') = [Some 20, Some 20] \<and>
      map eye_R_center (objects r') = [Some (70, 50), Some (170, 50)] \<and>
      pairs r' = Some [\<lparr>obj_1_id = Some 0, obj_2_id = Some 1, right_eye_dist = 100\<rparr>])"
proof -
  have h: "(0 :: int) < 5" by simp
  from h end_to_end_distances [OF h h h h] show ?thesis by (rule conjI)
qed


section \<open>Properties of the verifier\<close>

lemma compare_row_classify:
  "compare_row sys c row =
     (case classify sys row of
        Miss \<Rightarrow> c\<lparr>miss_count := miss_count c + 1\<rparr>
      | DetectionFailure \<Rightarrow> c\<lparr>miss_count := miss_count c + 1\<rparr>
      | Match err \<Rightarrow> c\<lparr>total_error := total_error c + err, match_count := match_count c + 1\<rparr>)"
  by (simp add: compare_row_def classify_def Let_def split: option.split)

lemma compare_rows_counts:
  "compare_rows sys c rows =
     \<lparr>total_error = total_error c + sum_list (map match_error (map (classify sys) rows)),
      match_count = match_count c + length (filter is_match (map (classify sys) rows)),
      miss_count = miss_count c
        + length (filter (\<lambda>cl. cl = Miss) (map (classify sys) rows))
        + length (filter (\<lambda>cl. cl = DetectionFailure) (map (classify sys) rows))\<rparr>"
proof (induction rows arbitrary: c)
  case Nil
  then show ?case by simp
next
  case (Cons row rows)
  show ?case
    by (cases "classify sys row") (simp_all add: Cons.IH compare_row_classify)
qed

text \<open>
  C8. The comparison loop counts every row in exactly one class: a miss and a detection
  failure add one to the miss/failure counter and nothing to the error total, a match
  adds one to the match counter and its absolute error to the total. The report gives
  the total divided by the number of matches. One individual row expecting 20.00 with
  the computed value 22.50 is a match, and the mean absolute error is 2.50.
\<close>

theorem verifier_classifies:
  "compare_rows sys \<lparr>total_error = 0, match_count = 0, miss_count = 0\<rparr> rows =
     \<lparr>total_error = sum_list (map match_error (map (classify sys) rows)),
      match_count = length (filter is_match (map (classify sys) rows)),
      miss_count = length (filter (\<lambda>cl. cl = Miss) (map (classify sys) rows))
        + length (filter (\<lambda>cl. cl = DetectionFailure) (map (classify sys) rows))\<rparr>
   \<and> verifier_run sys rows =
     (if rows = [] then None
      else if length (filter is_match (map (classify sys) rows)) = 0 then Some NoValidData
      else Some (Report (length (filter is_match (map (classify sys) rows)))
                   (length (filter (\<lambda>cl. cl = Miss) (map (classify sys) rows))
                     + length (filter (\<lambda>cl. cl = DetectionFailure) (map (classify sys) rows)))
                   (sum_list (map match_error (map (classify sys) rows))
                     / of_nat (length (filter is_match (map (classify sys) rows))))))
   \<and> classify example_sys example_row = Match (5 / 2)
   \<and> verifier_run example_sys [example_row] = Some (Report 1 0 (5 / 2))"
proof -
  have ex: "classify example_sys example_row = Match (5 / 2)"
    by (simp add: classify_def lookup_actual_def example_sys_def example_row_def)
  show ?thesis
    by (simp add: verifier_run_def compare_rows_counts Let_def ex)
qed

theorem verifier_classifies_witness:
  "verifier_run example_sys [example_row] = Some (Report 1 0 (5 / 2))"
  using verifier_classifies [of example_sys "[example_row]"] by blast


section \<open>Properties of the refinement stage\<close>

subsection \<open>Mutual-exclusion masking\<close>

lemma fillPoly_length: "length (fillPoly cov img pts c) = length img"
  by (simp add: fillPoly_def)

lemma fillPoly_row_length:
  "y < length img \<Longrightarrow> length (fillPoly cov img pts c ! y) = length (img ! y)"
  by (simp add: fillPoly_def nth_enumerate_eq)

lemma fillPoly_pixel:
  "y < length img \<Longrightarrow> x < length (img ! y) \<Longrightarrow>
     fillPoly cov img pts c ! y ! x = (if cov pts (int x) (int y) then c else img ! y ! x)"
  by (simp add: fillPoly_def nth_enumerate_eq)

lemma mask_others_length: "length (mask_others cov t j others img) = length img"
  by (induction others arbitrary: j img) (simp_all add: fillPoly_length split: seg_field.split)

lemma mask_others_row_length:
  "y < length img \<Longrightarrow> length (mask_others cov t j others img ! y) = length (img ! y)"
  by (induction others arbitrary: j img)
     (simp_all add: fillPoly_length fillPoly_row_length split: seg_field.split)

lemma mask_others_keeps_zero:
  "y < length img \<Longrightarrow> x < length (img ! y) \<Longrightarrow> img ! y ! x = (0, 0, 0) \<Longrightarrow>
     mask_others cov t j others img ! y ! x = (0, 0, 0)"
proof (induction others arbitrary: j img)
  case Nil
  then show ?case by simp
next
  case (Cons ob others)
  show ?case
  proof (cases "j \<noteq> t \<and> (\<exists>pts. segmentation ob = SegPoints pts)")
    case True
    then obtain pts where pts: "segmentation ob = SegPoints pts" and jt: "j \<noteq> t" by blast
    have "mask_others cov t (Suc j) others (fillPoly cov img pts (0, 0, 0)) ! y ! x = (0, 0, 0)"
      using Cons.prems
      by (intro Cons.IH) (simp_all add: fillPoly_length fillPoly_row_length fillPoly_pixel)
    then show ?thesis by (simp add: pts jt)
  next
    case False
    then have "mask_others cov t j (ob # others) img = mask_others cov t (Suc j) others img"
      by (cases "segmentation ob") auto
    with Cons show ?thesis by simp
  qed
qed

lemma mask_others_covered:
  assumes "y < length img" and "x < length (img ! y)"
    and "i < length others" and "j + i \<noteq> t"
    and "segmentation (others ! i) = SegPoints pts" and "cov pts (int x) (int y)"
  shows "mask_others cov t j others img ! y ! x = (0, 0, 0)"
  using assms
proof (induction others arbitrary: i j img)
  case Nil
  then show ?case by simp
next
  case (Cons ob others)
  let ?img' = "if j = t then img
               else case segmentation ob of SegPoints ps \<Rightarrow> fillPoly cov img ps (0, 0, 0)
                    | SegAbsent \<Rightarrow> img | SegCorrupt \<Rightarrow> img"
  have shape: "y < length ?img'" "x < length (?img' ! y)"
    using Cons.prems(1,2)
    by (simp_all add: fillPoly_length fillPoly_row_length split: seg_field.split)
  have step: "mask_others cov t j (ob # others) img = mask_others cov t (Suc j) others ?img'"
    by simp
  show ?case
  proof (cases i)
    case 0
    with Cons.prems have "?img' ! y ! x = (0, 0, 0)"
      by (simp add: fillPoly_pixel)
    from mask_others_keeps_zero [OF shape this] show ?thesis
      by (simp only: step)
  next
    case (Suc i')
    with Cons.prems have "i' < length others" "Suc j + i' \<noteq> t"
      "segmentation (others ! i') = SegPoints pts"
      by simp_all
    from Cons.IH [OF shape this Cons.prems(6)] show ?thesis
      by (simp only: step)
  qed
qed

lemma mask_others_untouched:
  assumes "y < length img" and "x < length (img ! y)"
    and "\<And>i pts. i < length others \<Longrightarrow> j + i \<noteq> t \<Longrightarrow>
            segmentation (others ! i) = SegPoints pts \<Longrightarrow> \<not> cov pts (int x) (int y)"
  shows "mask_others cov t j others img ! y ! x = img ! y ! x"
  using assms
proof (induction others arbitrary: j img)
  case Nil
  then show ?case by simp
next
  case (Cons ob others)
  let ?img' = "if j = t then img
               else case segmentation ob of SegPoints ps \<Rightarrow> fillPoly cov img ps (0, 0, 0)
                    | SegAbsent \<Rightarrow> img | SegCorrupt \<Rightarrow> img"
  have shape: "y < length ?img'" "x < length (?img' ! y)"
    using Cons.prems(1,2)
    by (simp_all add: fillPoly_length fillPoly_row_length split: seg_field.split)
  have here: "?img' ! y ! x = img ! y ! x"
    using Cons.prems(1,2) Cons.prems(3) [of 0]
    by (auto simp add: fillPoly_pixel split: seg_field.split)
  have rest: "\<not> cov pts (int x) (int y)"
    if "i < length others" "Suc j + i \<noteq> t" "segmentation (others ! i) = SegPoints pts" for i pts
    using Cons.prems(3) [of "Suc i" pts] that by simp
  have "mask_others cov t (Suc j) others ?img' ! y ! x = ?img' ! y ! x"
    using shape rest by (rule Cons.IH)
  with here show ?case by simp
qed

lemma copy_bbox_length: "length (copy_bbox img box) = length img"
  by (cases box) (simp add: copy_bbox_def)

lemma copy_bbox_row_length: "y < length img \<Longrightarrow> length (copy_bbox img box ! y) = length (img ! y)"
  by (cases box) (simp add: copy_bbox_def nth_enumerate_eq)

lemma copy_bbox_pixel:
  "y < length img \<Longrightarrow> x < length (img ! y) \<Longrightarrow>
     copy_bbox img (x1, y1, x2, y2) ! y ! x =
       (if in_slice (length img) y1 y2 y \<and> in_slice (length (img ! y)) x1 x2 x
        then img ! y ! x else (0, 0, 0))"
  by (simp add: copy_bbox_def nth_enumerate_eq)

lemma in_slice_nonneg:
  "0 \<le> a \<Longrightarrow> 0 \<le> b \<Longrightarrow> k < n \<Longrightarrow> in_slice n a b k = (a \<le> int k \<and> int k < b)"
  by (auto simp add: in_slice_def slice_bound_def)

text \<open>
  C7. In the image handed to the detector, every pixel that the fill of a non-target
  object's primary contour covers is zero, and, the bounding box of the target being in
  image-pixel coordinates (none negative), every pixel outside the box is zero; a pixel
  inside the box that no other object's fill covers keeps its colour. The image keeps
  its shape.
\<close>

theorem masking_isolates_target:
  assumes "y < length img_bgr" and "x < length (img_bgr ! y)"
    and "bbox ob = (x1, y1, x2, y2)"
    and "m = masked_input cov img_bgr ob obj_index all_objects"
  shows "length m = length img_bgr \<and> length (m ! y) = length (img_bgr ! y) \<and>
         (\<forall>j pts. j < length all_objects \<and> j \<noteq> obj_index \<and>
                  segmentation (all_objects ! j) = SegPoints pts \<and> cov pts (int x) (int y)
                    \<longrightarrow> m ! y ! x = (0, 0, 0)) \<and>
         (0 \<le> x1 \<and> 0 \<le> y1 \<and> 0 \<le> x2 \<and> 0 \<le> y2 \<and>
          \<not> (x1 \<le> int x \<and> int x < x2 \<and> y1 \<le> int y \<and> int y < y2)
            \<longrightarrow> m ! y ! x = (0, 0, 0)) \<and>
         (0 \<le> x1 \<and> 0 \<le> y1 \<and> 0 \<le> x2 \<and> 0 \<le> y2 \<and>
          x1 \<le> int x \<and> int x < x2 \<and> y1 \<le> int y \<and> int y < y2 \<and>
          (\<forall>j pts. j < length all_objects \<and> j \<noteq> obj_index \<and>
                   segmentation (all_objects ! j) = SegPoints pts \<longrightarrow> \<not> cov pts (int x) (int y))
            \<longrightarrow> m ! y ! x = img_bgr ! y ! x)"
proof -
  let ?clean = "mask_others cov obj_index 0 all_objects img_bgr"
  have cy: "y < length ?clean" and cx: "x < length (?clean ! y)"
    using assms(1,2) by (simp_all add: mask_others_length mask_others_row_length)
  have m: "m = copy_bbox ?clean (x1, y1, x2, y2)"
    by (simp add: assms(3,4) masked_input_def)
  have px: "m ! y ! x =
       (if in_slice (length img_bgr) y1 y2 y \<and> in_slice (length (img_bgr ! y)) x1 x2 x
        then ?clean ! y ! x else (0, 0, 0))"
    using copy_bbox_pixel [OF cy cx] assms(1)
    by (simp add: m mask_others_length mask_others_row_length)
  have shape: "length m = length img_bgr" "length (m ! y) = length (img_bgr ! y)"
    using assms(1)
    by (simp_all add: m copy_bbox_length copy_bbox_row_length mask_others_length
          mask_others_row_length)
  have sib: "m ! y ! x = (0, 0, 0)"
    if "j < length all_objects" "j \<noteq> obj_index"
       "segmentation (all_objects ! j) = SegPoints pts" "cov pts (int x) (int y)" for j pts
  proof -
    have "?clean ! y ! x = (0, 0, 0)"
      using assms(1,2) that by (intro mask_others_covered [where i = j]) simp_all
    then show ?thesis by (simp add: px)
  qed
  have out: "m ! y ! x = (0, 0, 0)"
    if "0 \<le> x1" "0 \<le> y1" "0 \<le> x2" "0 \<le> y2"
       "\<not> (x1 \<le> int x \<and> int x < x2 \<and> y1 \<le> int y \<and> int y < y2)"
    using that assms(1,2) by (auto simp add: px in_slice_nonneg)
  have keep: "m ! y ! x = img_bgr ! y ! x"
    if "0 \<le> x1" "0 \<le> y1" "0 \<le> x2" "0 \<le> y2"
       "x1 \<le> int x" "int x < x2" "y1 \<le> int y" "int y < y2"
       "\<forall>j pts. j < length all_objects \<and> j \<noteq> obj_index \<and>
                   segmentation (all_objects ! j) = SegPoints pts \<longrightarrow> \<not> cov pts (int x) (int y)"
  proof -
    have "?clean ! y ! x = img_bgr ! y ! x"
      using assms(1,2) that(9) by (intro mask_others_untouched) auto
    then show ?thesis
      using that assms(1,2) by (simp add: px in_slice_nonneg)
  qed
  from shape sib out keep show ?thesis by blast
qed

theorem masking_isolates_target_witness:
  "segmentation ([object_A, object_B] ! 1) = SegPoints [(2, 0), (3, 0), (3, 1), (2, 1)] \<and>
   bounding_raster [(2, 0), (3, 0), (3, 1), (2, 1)] (int 3) (int 0) \<and>
   bbox object_A = (0, 0, 2, 2) \<and> \<not> (int 3 < 2) \<and>
   masked_input bounding_raster grey_image object_A 0 [object_A, object_B] ! 0 ! 3 = (0, 0, 0) \<and>
   masked_input bounding_raster grey_image object_A 0 [object_A, object_B] ! 0 ! 1 = (9, 9, 9)"
proof -
  let ?m = "masked_input bounding_raster grey_image object_A 0 [object_A, object_B]"
  have y: "0 < length grey_image"
    and x3: "3 < length (grey_image ! 0)" and x1: "1 < length (grey_image ! 0)"
    by (simp_all add: grey_image_def)
  have b: "bbox object_A = (0, 0, 2, 2)"
    by (simp add: object_A_def detected_obj_def)
  have s: "segmentation ([object_A, object_B] ! 1) = SegPoints [(2, 0), (3, 0), (3, 1), (2, 1)]"
    by (simp add: object_B_def detected_obj_def)
  have c: "bounding_raster [(2, 0), (3, 0), (3, 1), (2, 1)] (int 3) (int 0)"
    by (simp add: bounding_raster_def)
  have n: "\<not> (int 3 < 2)" by simp
  from masking_isolates_target [OF y x3 b refl, of bounding_raster 0 "[object_A, object_B]"]
  have "\<forall>j pts. j < length [object_A, object_B] \<and> j \<noteq> 0 \<and>
           segmentation ([object_A, object_B] ! j) = SegPoints pts \<and>
           bounding_raster pts (int 3) (int 0) \<longrightarrow> ?m ! 0 ! 3 = (0, 0, 0)"
    by blast
  from this [rule_format, of 1 "[(2, 0), (3, 0), (3, 1), (2, 1)]"] s c
  have z: "?m ! 0 ! 3 = (0, 0, 0)" by simp
  have free: "\<forall>j pts. j < length [object_A, object_B] \<and> j \<noteq> 0 \<and>
           segmentation ([object_A, object_B] ! j) = SegPoints pts
             \<longrightarrow> \<not> bounding_raster pts (int 1) (int 0)"
    by (auto simp add: less_Suc_eq object_B_def detected_obj_def bounding_raster_def)
  from masking_isolates_target [OF y x1 b refl, of bounding_raster 0 "[object_A, object_B]"]
  have "(0 :: int) \<le> 0 \<and> (0 :: int) \<le> 0 \<and> (0 :: int) \<le> 2 \<and> (0 :: int) \<le> 2 \<and>
          0 \<le> int 1 \<and> int 1 < 2 \<and> 0 \<le> int 0 \<and> int 0 < 2 \<and>
          (\<forall>j pts. j < length [object_A, object_B] \<and> j \<noteq> 0 \<and>
                   segmentation ([object_A, object_B] ! j) = SegPoints pts
                     \<longrightarrow> \<not> bounding_raster pts (int 1) (int 0))
            \<longrightarrow> ?m ! 0 ! 1 = grey_image ! 0 ! 1"
    by blast
  with free have k: "?m ! 0 ! 1 = (9, 9, 9)"
    by (simp add: grey_image_def)
  from s c b n z k show ?thesis by (intro conjI)
qed


subsection \<open>The loop over the objects of an image\<close>

lemma obj_step_mono: "obj_step nm idx new ob ob' \<Longrightarrow> set new \<subseteq> set new' \<Longrightarrow> obj_step nm idx new' ob ob'"
  by (auto simp add: obj_step_def)

lemma entry_ok_Cons:
  assumes "entry_ok nm (Suc off) rest rest' ent"
  shows "entry_ok nm off (ob # rest) (ob' # rest') ent"
proof -
  from assms obtain j where j: "j < length rest" "fst ent = nm" "fst (snd ent) = Suc off + j"
    "\<not> has_eyes (rest ! j)" "\<forall>es. snd (snd ent) = Inr es \<longrightarrow> eyes (rest' ! j) = Some es"
    unfolding entry_ok_def by blast
  then have "Suc j < length (ob # rest) \<and> fst ent = nm \<and> fst (snd ent) = off + Suc j \<and>
     \<not> has_eyes ((ob # rest) ! Suc j) \<and>
     (\<forall>es. snd (snd ent) = Inr es \<longrightarrow> eyes ((ob' # rest') ! Suc j) = Some es)"
    by simp
  then show ?thesis unfolding entry_ok_def by blast
qed

lemma objects_inv_skip:
  assumes "objects_inv nm (Suc off) rest rest' new"
  shows "objects_inv nm off (ob # rest) (ob # rest') new"
proof -
  from assms have len: "length rest' = length rest"
    and st: "\<And>j. j < length rest \<Longrightarrow> obj_step nm (Suc off + j) new (rest ! j) (rest' ! j)"
    and en: "\<And>ent. ent \<in> set new \<Longrightarrow> entry_ok nm (Suc off) rest rest' ent"
    by (simp_all add: objects_inv_def)
  have "obj_step nm (off + j) new ((ob # rest) ! j) ((ob # rest') ! j)"
    if "j < length (ob # rest)" for j
  proof (cases j)
    case 0
    then show ?thesis by (simp add: obj_step_def)
  next
    case (Suc j')
    with that st [of j'] show ?thesis by simp
  qed
  with len en show ?thesis
    by (simp add: objects_inv_def entry_ok_Cons)
qed

lemma objects_inv_call:
  assumes "objects_inv nm (Suc off) rest rest' new" and "\<not> has_eyes ob"
  shows "objects_inv nm off (ob # rest) (ob\<lparr>eyes := Some es\<rparr> # rest') ((nm, off, Inr es) # new)"
proof -
  from assms have len: "length rest' = length rest"
    and st: "\<And>j. j < length rest \<Longrightarrow> obj_step nm (Suc off + j) new (rest ! j) (rest' ! j)"
    and en: "\<And>ent. ent \<in> set new \<Longrightarrow> entry_ok nm (Suc off) rest rest' ent"
    by (simp_all add: objects_inv_def)
  have "obj_step nm (off + j) ((nm, off, Inr es) # new) ((ob # rest) ! j)
          ((ob\<lparr>eyes := Some es\<rparr> # rest') ! j)"
    if "j < length (ob # rest)" for j
  proof (cases j)
    case 0
    have "(nm, off, Inr es) \<in> set ((nm, off, Inr es) # new) \<and>
          ob\<lparr>eyes := Some es\<rparr> = ob\<lparr>eyes := Some es\<rparr>"
      by simp
    then have "obj_step nm off ((nm, off, Inr es) # new) ob (ob\<lparr>eyes := Some es\<rparr>)"
      unfolding obj_step_def using assms(2) by blast
    with 0 show ?thesis by simp
  next
    case (Suc j')
    with that st [of j'] have "obj_step nm (Suc off + j') new (rest ! j') (rest' ! j')" by simp
    then have "obj_step nm (Suc off + j') ((nm, off, Inr es) # new) (rest ! j') (rest' ! j')"
      by (rule obj_step_mono) auto
    with Suc show ?thesis by simp
  qed
  moreover have "entry_ok nm off (ob # rest) (ob\<lparr>eyes := Some es\<rparr> # rest') (nm, off, Inr es)"
    unfolding entry_ok_def using assms(2) by (intro exI [of _ 0]) simp
  ultimately show ?thesis
    using len en by (auto simp add: objects_inv_def entry_ok_Cons)
qed

lemma objects_inv_raise:
  assumes "\<not> has_eyes ob"
  shows "objects_inv nm off (ob # rest) (ob # rest) [(nm, off, Inl x)]"
proof -
  have "entry_ok nm off (ob # rest) (ob # rest) (nm, off, Inl x)"
    unfolding entry_ok_def using assms by (intro exI [of _ 0]) simp
  then show ?thesis
    by (simp add: objects_inv_def obj_step_def)
qed

lemma log_ends_Cons: "returned a \<Longrightarrow> log_ends x new \<Longrightarrow> log_ends x (a # new)"
  by (cases x) (auto simp add: log_ends_def)

lemma run_objects_inv:
  assumes "run_objects e nm img before rest trace m = (objs, trace', m', x)"
  shows "\<exists>rest' new. objs = before @ rest' \<and> trace' = trace @ new \<and>
           objects_inv nm (length before) rest rest' new \<and> log_ends x new \<and>
           (m' \<longrightarrow> m \<or> new \<noteq> [])"
  using assms
proof (induction rest arbitrary: before trace m)
  case Nil
  then show ?case by (auto simp add: objects_inv_def log_ends_def)
next
  case (Cons ob rest)
  show ?case
  proof (cases "has_eyes ob")
    case True
    with Cons.prems have "run_objects e nm img (before @ [ob]) rest trace m = (objs, trace', m', x)"
      by simp
    from Cons.IH [OF this] obtain rest' new where
      *: "objs = (before @ [ob]) @ rest'" "trace' = trace @ new"
         "objects_inv nm (length (before @ [ob])) rest rest' new" "log_ends x new"
         "m' \<longrightarrow> m \<or> new \<noteq> []"
      by blast
    from *(3) have "objects_inv nm (length before) (ob # rest) (ob # rest') new"
      by (simp add: objects_inv_skip)
    with * show ?thesis by (intro exI [of _ "ob # rest'"] exI [of _ new]) simp
  next
    case False
    show ?thesis
    proof (cases "process_sam_eyes e (length trace) img ob (length before) (before @ ob # rest)")
      case (Inl ex)
      with False Cons.prems have r: "objs = before @ ob # rest"
        "trace' = trace @ [(nm, length before, Inl ex)]" "m' = m" "x = Some ex"
        by simp_all
      have "objects_inv nm (length before) (ob # rest) (ob # rest) [(nm, length before, Inl ex)]"
        using False by (rule objects_inv_raise)
      moreover have "log_ends x [(nm, length before, Inl ex)]"
        by (simp add: r log_ends_def)
      ultimately show ?thesis
        using r by (intro exI [of _ "ob # rest"] exI [of _ "[(nm, length before, Inl ex)]"]) simp
    next
      case (Inr es)
      with False Cons.prems have
        "run_objects e nm img (before @ [ob\<lparr>eyes := Some es\<rparr>]) rest
           (trace @ [(nm, length before, Inr es)]) True = (objs, trace', m', x)"
        by simp
      from Cons.IH [OF this] obtain rest' new where
        *: "objs = (before @ [ob\<lparr>eyes := Some es\<rparr>]) @ rest'"
           "trace' = (trace @ [(nm, length before, Inr es)]) @ new"
           "objects_inv nm (length (before @ [ob\<lparr>eyes := Some es\<rparr>])) rest rest' new"
           "log_ends x new"
        by blast
      from *(3) False have
        "objects_inv nm (length before) (ob # rest) (ob\<lparr>eyes := Some es\<rparr> # rest')
           ((nm, length before, Inr es) # new)"
        by (simp add: objects_inv_call)
      moreover have "log_ends x ((nm, length before, Inr es) # new)"
        using *(4) by (intro log_ends_Cons) (simp_all add: returned_def)
      ultimately show ?thesis
        using *(1,2)
        by (intro exI [of _ "ob\<lparr>eyes := Some es\<rparr> # rest'"]
              exI [of _ "(nm, length before, Inr es) # new"]) simp
    qed
  qed
qed


subsection \<open>The loop over the images\<close>

lemma record_step_refl: "record_step new nr nr"
  unfolding record_step_def
  by (intro conjI exI [of _ "objects (snd nr)"]) (simp_all add: obj_step_def)

lemma record_step_mono:
  assumes "record_step new nr nr'" and "set new \<subseteq> set new'"
  shows "record_step new' nr nr'"
proof -
  from assms(1) obtain objs where o: "fst nr' = fst nr" "snd nr' = (snd nr)\<lparr>objects := objs\<rparr>"
    "length objs = length (objects (snd nr))"
    "\<And>j. j < length objs \<Longrightarrow> obj_step (fst nr) j new (objects (snd nr) ! j) (objs ! j)"
    unfolding record_step_def by blast
  have "obj_step (fst nr) j new' (objects (snd nr) ! j) (objs ! j)" if "j < length objs" for j
    using o(4) [OF that] assms(2) by (rule obj_step_mono)
  with o(1-3) show ?thesis unfolding record_step_def by blast
qed

lemma record_step_objects:
  assumes "objects_inv nm 0 (objects r) objs new"
  shows "record_step new (nm, r) (nm, r\<lparr>objects := objs\<rparr>)"
  using assms unfolding record_step_def objects_inv_def
  by (intro conjI exI [of _ objs]) simp_all

lemma doc_entry_ok_here:
  assumes "entry_ok nm 0 (objects r) objs ent"
  shows "doc_entry_ok ((nm, r) # rest) ((nm, r\<lparr>objects := objs\<rparr>) # rest') ent"
proof -
  from assms have "fst ent = nm" by (auto simp add: entry_ok_def)
  with assms show ?thesis
    unfolding doc_entry_ok_def by (intro exI [of _ 0]) simp
qed

lemma doc_entry_ok_Cons:
  assumes "doc_entry_ok rest rest' ent"
  shows "doc_entry_ok (nr # rest) (nr' # rest') ent"
proof -
  from assms obtain k where "k < length rest" "fst (rest ! k) = fst ent"
    "entry_ok (fst ent) 0 (objects (snd (rest ! k))) (objects (snd (rest' ! k))) ent"
    unfolding doc_entry_ok_def by blast
  then show ?thesis
    unfolding doc_entry_ok_def by (intro exI [of _ "Suc k"]) simp
qed

lemma document_inv_stop:
  assumes "objects_inv nm 0 (objects r) objs new"
  shows "document_inv ((nm, r) # rest) ((nm, r\<lparr>objects := objs\<rparr>) # rest) new"
proof -
  have "record_step new (((nm, r) # rest) ! k) (((nm, r\<lparr>objects := objs\<rparr>) # rest) ! k)"
    if "k < length ((nm, r) # rest)" for k
    using record_step_objects [OF assms] by (cases k) (simp_all add: record_step_refl)
  moreover have "doc_entry_ok ((nm, r) # rest) ((nm, r\<lparr>objects := objs\<rparr>) # rest) ent"
    if "ent \<in> set new" for ent
    using assms that by (intro doc_entry_ok_here) (simp add: objects_inv_def)
  ultimately show ?thesis
    by (simp add: document_inv_def)
qed

lemma document_inv_continue:
  assumes "objects_inv nm 0 (objects r) objs new1" and "document_inv rest rest' new2"
  shows "document_inv ((nm, r) # rest) ((nm, r\<lparr>objects := objs\<rparr>) # rest') (new1 @ new2)"
proof -
  from assms(2) have len: "length rest' = length rest"
    and st: "\<And>k. k < length rest \<Longrightarrow> record_step new2 (rest ! k) (rest' ! k)"
    and en: "\<And>ent. ent \<in> set new2 \<Longrightarrow> doc_entry_ok rest rest' ent"
    by (simp_all add: document_inv_def)
  have "record_step (new1 @ new2) (((nm, r) # rest) ! k) (((nm, r\<lparr>objects := objs\<rparr>) # rest') ! k)"
    if "k < length ((nm, r) # rest)" for k
  proof (cases k)
    case 0
    have "record_step (new1 @ new2) (nm, r) (nm, r\<lparr>objects := objs\<rparr>)"
      using record_step_objects [OF assms(1)] by (rule record_step_mono) simp
    with 0 show ?thesis by simp
  next
    case (Suc k')
    with that have "record_step new2 (rest ! k') (rest' ! k')" by (simp add: st)
    then have "record_step (new1 @ new2) (rest ! k') (rest' ! k')"
      by (rule record_step_mono) simp
    with Suc show ?thesis by simp
  qed
  moreover have "doc_entry_ok ((nm, r) # rest) ((nm, r\<lparr>objects := objs\<rparr>) # rest') ent"
    if "ent \<in> set (new1 @ new2)" for ent
  proof (cases "ent \<in> set new1")
    case True
    with assms(1) show ?thesis by (intro doc_entry_ok_here) (simp add: objects_inv_def)
  next
    case False
    with that have "ent \<in> set new2" by simp
    then show ?thesis by (intro doc_entry_ok_Cons en)
  qed
  ultimately show ?thesis
    using len by (simp add: document_inv_def)
qed

lemma document_inv_skip:
  assumes "document_inv rest rest' new"
  shows "document_inv (nr # rest) (nr # rest') new"
proof -
  from assms have len: "length rest' = length rest"
    and st: "\<And>k. k < length rest \<Longrightarrow> record_step new (rest ! k) (rest' ! k)"
    and en: "\<And>ent. ent \<in> set new \<Longrightarrow> doc_entry_ok rest rest' ent"
    by (simp_all add: document_inv_def)
  have "record_step new ((nr # rest) ! k) ((nr # rest') ! k)" if "k < length (nr # rest)" for k
    using that st by (cases k) (simp_all add: record_step_refl)
  with len en show ?thesis
    by (simp add: document_inv_def doc_entry_ok_Cons)
qed

lemma log_ends_append:
  assumes "list_all returned new1" and "log_ends x new2"
  shows "log_ends x (new1 @ new2)"
proof (cases x)
  case None
  with assms show ?thesis by (simp add: log_ends_def)
next
  case (Some ex)
  with assms(2) have "new2 \<noteq> []" by (simp add: log_ends_def)
  with assms Some show ?thesis
    by (simp add: log_ends_def butlast_append)
qed

lemma doc_ends_append:
  assumes "list_all returned new1" and "doc_ends st new2"
  shows "doc_ends st (new1 @ new2)"
  using assms by (cases st) (simp_all add: doc_ends_def log_ends_append)

lemma run_images_inv:
  assumes "run_images e before rest trace = (d, trace', st)"
  shows "\<exists>rest' new. d = before @ rest' \<and> trace' = trace @ new \<and>
           document_inv rest rest' new \<and> doc_ends st new"
  using assms
proof (induction rest arbitrary: before trace)
  case Nil
  then show ?case by (auto simp add: document_inv_def doc_ends_def)
next
  case (Cons nr rest)
  obtain nm r where nr: "nr = (nm, r)" by (cases nr)
  show ?case
  proof (cases "imread e nm")
    case None
    with Cons.prems have "run_images e (before @ [(nm, r)]) rest trace = (d, trace', st)"
      by (simp add: nr)
    from Cons.IH [OF this] obtain rest' new where
      *: "d = (before @ [(nm, r)]) @ rest'" "trace' = trace @ new"
         "document_inv rest rest' new" "doc_ends st new"
      by blast
    from *(3) have "document_inv (nr # rest) (nr # rest') new"
      by (rule document_inv_skip)
    with * show ?thesis
      by (intro exI [of _ "nr # rest'"] exI [of _ new]) (simp add: nr)
  next
    case (Some img)
    obtain objs trace1 m x where
      ro: "run_objects e nm img [] (objects r) trace False = (objs, trace1, m, x)"
      by (cases "run_objects e nm img [] (objects r) trace False") auto
    from run_objects_inv [OF ro] obtain new1 where
      t1: "trace1 = trace @ new1" and oi: "objects_inv nm 0 (objects r) objs new1"
      and le: "log_ends x new1" and md: "m \<longrightarrow> new1 \<noteq> []"
      by auto
    let ?nr' = "(nm, r\<lparr>objects := objs\<rparr>)"
    have stop: "document_inv (nr # rest) (?nr' # rest) new1"
      unfolding nr using oi by (rule document_inv_stop)
    show ?thesis
    proof (cases x)
      case (Some ex)
      with Cons.prems \<open>imread e nm = Some img\<close> ro have
        r: "d = before @ ?nr' # rest" "trace' = trace1"
           "st = (case ex of KeyboardInterrupt \<Rightarrow> Interrupted | OtherError \<Rightarrow> Failed)"
        by (simp_all add: nr split: exc.splits)
      have "doc_ends st new1"
        using le Some by (cases ex) (simp_all add: r(3) doc_ends_def)
      with stop r t1 show ?thesis
        by (intro exI [of _ "?nr' # rest"] exI [of _ new1]) simp
    next
      case None
      from le None have ret: "list_all returned new1" by (simp add: log_ends_def)
      show ?thesis
      proof (cases "m \<and> show_windows e \<and> esc_pressed e nm")
        case True
        with Cons.prems \<open>imread e nm = Some img\<close> ro None have
          r: "d = before @ ?nr' # rest" "trace' = trace1" "st = Escaped"
          by (simp_all add: nr)
        have "doc_ends st new1"
          using ret True md by (simp add: r(3) doc_ends_def)
        with stop r t1 show ?thesis
          by (intro exI [of _ "?nr' # rest"] exI [of _ new1]) simp
      next
        case False
        with Cons.prems \<open>imread e nm = Some img\<close> ro None have
          "run_images e (before @ [?nr']) rest trace1 = (d, trace', st)"
          by (auto simp add: nr)
        from Cons.IH [OF this] obtain rest' new2 where
          *: "d = (before @ [?nr']) @ rest'" "trace' = trace1 @ new2"
             "document_inv rest rest' new2" "doc_ends st new2"
          by blast
        have "document_inv (nr # rest) (?nr' # rest') (new1 @ new2)"
          unfolding nr using oi *(3) by (rule document_inv_continue)
        moreover have "doc_ends st (new1 @ new2)"
          using ret *(4) by (rule doc_ends_append)
        ultimately show ?thesis
          using *(1,2) t1
          by (intro exI [of _ "?nr' # rest'"] exI [of _ "new1 @ new2"]) simp
      qed
    qed
  qed
qed

lemma run_inv:
  "saved (run e data) = d \<Longrightarrow> calls (run e data) = new \<Longrightarrow> ended (run e data) = st \<Longrightarrow>
     document_inv data d new \<and> doc_ends st new"
proof -
  assume a: "saved (run e data) = d" "calls (run e data) = new" "ended (run e data) = st"
  obtain d' t' s' where r: "run_images e [] data [] = (d', t', s')"
    by (cases "run_images e [] data []") auto
  with a have "d' = d" "t' = new" "s' = st" by (simp_all add: run_def)
  with run_images_inv [OF r] show ?thesis by simp
qed





subsection \<open>The run\<close>

lemma document_inv_names:
  assumes "document_inv data d new"
  shows "map fst d = map fst data"
proof (rule nth_equalityI)
  from assms show "length (map fst d) = length (map fst data)"
    by (simp add: document_inv_def)
next
  fix k assume "k < length (map fst d)"
  with assms show "map fst d ! k = map fst data ! k"
    by (simp add: document_inv_def record_step_def)
qed





lemmas demo_defs = run_def two_pending_def pending_document_def interrupt_env_def blind_env_def
  sighted_env_def process_sam_eyes_def has_eyes_def object_A_def object_B_def detected_obj_def
  collect_contours_def square_def


subsection \<open>Running the stage again\<close>

lemma run_skips_nonempty:
  assumes dist: "distinct (map fst doc)" and inv: "document_inv doc d new"
    and k: "k < length doc" and i: "i < length (objects (snd (doc ! k)))"
    and he: "has_eyes (objects (snd (doc ! k)) ! i)"
  shows "i < length (objects (snd (d ! k))) \<and>
         objects (snd (d ! k)) ! i = objects (snd (doc ! k)) ! i \<and>
         (\<forall>out. (fst (doc ! k), i, out) \<notin> set new)"
proof -
  from inv k have "record_step new (doc ! k) (d ! k)"
    by (simp add: document_inv_def)
  then obtain objs where o: "snd (d ! k) = (snd (doc ! k))\<lparr>objects := objs\<rparr>"
    "length objs = length (objects (snd (doc ! k)))"
    "\<And>j. j < length objs \<Longrightarrow>
       obj_step (fst (doc ! k)) j new (objects (snd (doc ! k)) ! j) (objs ! j)"
    unfolding record_step_def by blast
  from o(3) [of i] i he have same: "objs ! i = objects (snd (doc ! k)) ! i"
    by (simp add: o(2) obj_step_def)
  have "False" if "(fst (doc ! k), i, out) \<in> set new" for out
  proof -
    from inv that have "doc_entry_ok doc d (fst (doc ! k), i, out)"
      by (simp add: document_inv_def)
    then obtain k' where k': "k' < length doc" "fst (doc ! k') = fst (doc ! k)"
      "\<not> has_eyes (objects (snd (doc ! k')) ! i)"
      by (auto simp add: doc_entry_ok_def entry_ok_def)
    from k'(1,2) k have "map fst doc ! k' = map fst doc ! k" by simp
    moreover have "k' < length (map fst doc)" "k < length (map fst doc)"
      using k'(1) k by simp_all
    ultimately have "k' = k"
      using dist nth_eq_iff_index_eq by blast
    with k'(3) he show False by simp
  qed
  with same i show ?thesis
    by (auto simp add: o(1,2))
qed

lemma run_fixed_point:
  assumes inv: "document_inv doc d new" and en: "doc_ends st new"
    and all: "\<forall>k < length doc. \<forall>ob \<in> set (objects (snd (doc ! k))). has_eyes ob"
  shows "d = doc \<and> new = [] \<and> st = Completed"
proof -
  have len: "length d = length doc"
    using inv by (simp add: document_inv_def)
  have "d ! k = doc ! k" if k: "k < length doc" for k
  proof -
    from inv k have "record_step new (doc ! k) (d ! k)"
      by (simp add: document_inv_def)
    then obtain objs where o: "fst (d ! k) = fst (doc ! k)"
      "snd (d ! k) = (snd (doc ! k))\<lparr>objects := objs\<rparr>"
      "length objs = length (objects (snd (doc ! k)))"
      "\<And>j. j < length objs \<Longrightarrow>
         obj_step (fst (doc ! k)) j new (objects (snd (doc ! k)) ! j) (objs ! j)"
      unfolding record_step_def by blast
    have "objs = objects (snd (doc ! k))"
    proof (rule nth_equalityI)
      show "length objs = length (objects (snd (doc ! k)))" by (rule o(3))
    next
      fix j assume j: "j < length objs"
      with all k o(3) have "has_eyes (objects (snd (doc ! k)) ! j)" by simp
      with o(4) [OF j] show "objs ! j = objects (snd (doc ! k)) ! j"
        by (simp add: obj_step_def)
    qed
    with o(2) have "snd (d ! k) = snd (doc ! k)" by simp
    with o(1) show ?thesis by (simp add: prod_eq_iff)
  qed
  with len have d: "d = doc" by (simp add: nth_equalityI)
  have new: "new = []"
  proof (rule ccontr)
    assume "new \<noteq> []"
    then obtain ent where "ent \<in> set new" by (cases new) auto
    with inv have "doc_entry_ok doc d ent" by (simp add: document_inv_def)
    then obtain k j where "k < length doc" "j < length (objects (snd (doc ! k)))"
      "\<not> has_eyes (objects (snd (doc ! k)) ! j)"
      by (auto simp add: doc_entry_ok_def entry_ok_def)
    with all show False by simp
  qed
  from en new have "st = Completed"
    by (cases st) (simp_all add: doc_ends_def log_ends_def)
  with d new show ?thesis by simp
qed

text \<open>
  C1 (as amended). When the stage is run again on the document a first run wrote, every
  object whose eyes field is non-empty is left exactly as it was and no detector call is
  made for it; so a document in which every object has a non-empty eyes field comes back
  identical, without any call.
\<close>

theorem rerun_skips_nonempty:
  assumes "distinct (map fst data)" and "first = run e1 data"
    and "second = run e2 (saved first)"
  shows "map fst (saved second) = map fst (saved first) \<and>
    (\<forall>k < length (saved first). \<forall>i < length (objects (snd (saved first ! k))).
        has_eyes (objects (snd (saved first ! k)) ! i) \<longrightarrow>
          i < length (objects (snd (saved second ! k))) \<and>
          objects (snd (saved second ! k)) ! i = objects (snd (saved first ! k)) ! i \<and>
          (\<forall>out. (fst (saved first ! k), i, out) \<notin> set (calls second))) \<and>
    ((\<forall>k < length (saved first). \<forall>ob \<in> set (objects (snd (saved first ! k))). has_eyes ob) \<longrightarrow>
        saved second = saved first \<and> calls second = [] \<and> ended second = Completed)"
proof -
  from run_inv [of e1 data "saved first" "calls first" "ended first"]
  have "document_inv data (saved first) (calls first)"
    by (simp add: assms(2))
  then have "map fst (saved first) = map fst data"
    by (rule document_inv_names)
  with assms(1) have dist: "distinct (map fst (saved first))" by simp
  from run_inv [of e2 "saved first" "saved second" "calls second" "ended second"]
  have inv: "document_inv (saved first) (saved second) (calls second)"
    and en: "doc_ends (ended second) (calls second)"
    by (simp_all add: assms(3))
  have names: "map fst (saved second) = map fst (saved first)"
    using inv by (rule document_inv_names)
  have skip: "i < length (objects (snd (saved second ! k))) \<and>
          objects (snd (saved second ! k)) ! i = objects (snd (saved first ! k)) ! i \<and>
          (\<forall>out. (fst (saved first ! k), i, out) \<notin> set (calls second))"
    if "k < length (saved first)" "i < length (objects (snd (saved first ! k)))"
       "has_eyes (objects (snd (saved first ! k)) ! i)" for k i
    using dist inv that by (rule run_skips_nonempty)
  have fixed: "saved second = saved first \<and> calls second = [] \<and> ended second = Completed"
    if "\<forall>k < length (saved first). \<forall>ob \<in> set (objects (snd (saved first ! k))). has_eyes ob"
    using inv en that by (rule run_fixed_point)
  from names skip fixed show ?thesis by blast
qed

theorem rerun_skips_nonempty_witness:
  "distinct (map fst pending_document) \<and>
   has_eyes (objects (snd (saved (run sighted_env pending_document) ! 0)) ! 0) \<and>
   saved (run blind_env (saved (run sighted_env pending_document)))
     = saved (run sighted_env pending_document) \<and>
   calls (run blind_env (saved (run sighted_env pending_document))) = []"
proof -
  let ?first = "run sighted_env pending_document"
  let ?second = "run blind_env (saved ?first)"
  have d: "distinct (map fst pending_document)"
    by (simp add: pending_document_def)
  have s: "saved ?first =
     [(''a.jpg'', \<lparr>width = 4, height = 2, animals_found = 1,
         objects = [object_A\<lparr>eyes := Some [square 1 1 1]\<rparr>], pairs = None\<rparr>)]"
    by (simp add: demo_defs)
  have h: "has_eyes (objects (snd (saved ?first ! 0)) ! 0)"
    by (simp add: s has_eyes_def)
  have a: "\<forall>k < length (saved ?first). \<forall>ob \<in> set (objects (snd (saved ?first ! k))). has_eyes ob"
    by (simp add: s has_eyes_def)
  from rerun_skips_nonempty
         [where ?e1.0 = sighted_env and ?e2.0 = blind_env, OF d refl refl] a
  have "saved ?second = saved ?first \<and> calls ?second = []"
    by blast
  with d h show ?thesis by (intro conjI) simp_all
qed

text \<open>
  C1 as stated fails for an object whose first-run result was the empty sequence: the
  first run calls the detector for object 0 and writes the empty sequence; the second run
  calls the detector for it again, and a detector that now finds an eye overwrites the
  field.
\<close>

theorem rerun_not_idempotent:
  "calls (run blind_env pending_document) = [(''a.jpg'', 0, Inr [])] \<and>
   eyes (objects (snd (saved (run blind_env pending_document) ! 0)) ! 0) = Some [] \<and>
   calls (run blind_env (saved (run blind_env pending_document))) = [(''a.jpg'', 0, Inr [])] \<and>
   eyes (objects (snd (saved (run sighted_env (saved (run blind_env pending_document))) ! 0)) ! 0)
     = Some [square 1 1 1] \<and>
   saved (run sighted_env (saved (run blind_env pending_document)))
     \<noteq> saved (run blind_env pending_document)"
  by (simp add: demo_defs)


end
